theory Spec2Isabelle
  imports Main "HOL-Library.Word" "HOL-Library.Multiset" "HOL-Library.List_Lexorder"
    "HOL-Library.Char_ord" "HOL-Library.Monad_Syntax"
begin

chapter \<open>The Groth16 prover of rapidsnark: \<^verbatim>\<open>groth16.cpp\<close>\<close>

text \<open>
  A shallow embedding of \<^verbatim>\<open>Prover::prove\<close>, \<^verbatim>\<open>Proof::toJsonStr\<close> and
  \<^verbatim>\<open>Proof::toJson\<close> of \<^verbatim>\<open>src/rust-rapidsnark/rapidsnark/src/groth16.cpp\<close>, and the
  properties of the prover's specification checked against it.

  The file calls into libraries that are not part of it: the field and curve backend
  (\<^verbatim>\<open>E.fr\<close>, \<^verbatim>\<open>E.g1\<close>, \<^verbatim>\<open>E.g2\<close>, \<^verbatim>\<open>E.f1\<close>), the FFT engine \<^verbatim>\<open>fft_\<close>, GMP's
  \<^verbatim>\<open>mpn_cmp\<close>, libsodium's \<^verbatim>\<open>randombytes_buf\<close>, TBB's \<^verbatim>\<open>parallel_for\<close> and the JSON
  library. The FFT engine and the random source are parameters of the model; the field
  and group operations are modelled from the specification, each marked as such.
\<close>

unbundle bit_operations_syntax

section \<open>Scalar-field elements\<close>

text \<open>
  \<^verbatim>\<open>FrRawElement\<close> is four 64-bit limbs, and \<^verbatim>\<open>Engine::FrElement\<close> wraps one as its
  member \<^verbatim>\<open>v\<close> (\<^verbatim>\<open>r.v[3]\<close> in \<^verbatim>\<open>prove\<close>): the model identifies the two. Limb 0 is the
  least significant (\<^verbatim>\<open>fr_modulus\<close> is written that way in the source, and \<^verbatim>\<open>mpn_cmp\<close>
  reads its operands that way). \<open>fr_val\<close> is the integer an element stores, \<open>fr_of_nat\<close>
  stores an integer below \<open>2\<^sup>2\<^sup>5\<^sup>6\<close>.
\<close>

datatype FrRawElement = Limbs (v0: "64 word") (v1: "64 word") (v2: "64 word") (v3: "64 word")

type_synonym FrElement = FrRawElement

definition Fr_N64 :: nat where
  \<comment> \<open>Modelled from the spec: the constant \<^verbatim>\<open>Fr_N64\<close> of the field backend's header, the
    number of 64-bit limbs of an element.\<close>
  "Fr_N64 = 4"

fun limbs :: "FrRawElement \<Rightarrow> 64 word list" where
  "limbs (Limbs l0 l1 l2 l3) = [l0, l1, l2, l3]"

fun fr_val :: "FrRawElement \<Rightarrow> nat" where
  "fr_val (Limbs l0 l1 l2 l3) =
     unat l0 + 2 ^ 64 * unat l1 + 2 ^ 128 * unat l2 + 2 ^ 192 * unat l3"

definition fr_of_nat :: "nat \<Rightarrow> FrRawElement" where
  "fr_of_nat n =
     Limbs (of_nat n) (of_nat (n div 2 ^ 64)) (of_nat (n div 2 ^ 128)) (of_nat (n div 2 ^ 192))"

text \<open>
  \<^verbatim>\<open>fr_modulus\<close> as \<^verbatim>\<open>prove\<close> declares it (lines 296-297), and the same number \<open>q\<close> as
  an integer. \<open>Fr_R\<close> is the Montgomery radix of a four-limb field, and \<open>Fr_Rinv\<close> its
  inverse modulo \<open>q\<close>.
\<close>

definition fr_modulus :: FrRawElement where
  "fr_modulus =
     Limbs 0x43E1F593F0000001 0x2833E84879B97091 0xB85045B68181585D 0x30644E72E131A029"

definition Fr_q :: nat where
  "Fr_q = 0x30644E72E131A029B85045B68181585D2833E84879B9709143E1F593F0000001"

definition Fr_R :: nat where
  "Fr_R = 2 ^ 256"

definition Fr_Rinv :: nat where
  "Fr_Rinv = 0x15EBF95182C5551CC8260DE4AEB85D5D090EF5A9E111EC87DC5BA0056DB1194E"

text \<open>
  Modelled from the spec: the scalar-field backend \<^verbatim>\<open>E.fr\<close> (\<^verbatim>\<open>zero\<close>, \<^verbatim>\<open>add\<close>,
  \<^verbatim>\<open>sub\<close>, \<^verbatim>\<open>mul\<close>, \<^verbatim>\<open>toMontgomery\<close>, \<^verbatim>\<open>fromMontgomery\<close>), which is not in the source
  file. The specification has elements at rest in Montgomery form, \<open>x \<cdot> R mod q\<close>, with
  \<^verbatim>\<open>mul\<close> the field multiplication in that form: on stored integers, addition and
  subtraction are those of integers modulo \<open>q\<close>, \<^verbatim>\<open>mul\<close> is \<open>a \<cdot> b \<cdot> R\<^sup>-\<^sup>1 mod q\<close>,
  \<^verbatim>\<open>toMontgomery\<close> is \<open>a \<cdot> R mod q\<close> and \<^verbatim>\<open>fromMontgomery\<close> is \<open>a \<cdot> R\<^sup>-\<^sup>1 mod q\<close>.
  Results are reduced: they are below \<open>q\<close>, as the operands are that the prover feeds
  back into these operations.
\<close>

definition fr_zero :: FrElement where
  \<comment> \<open>Modelled from the spec: \<^verbatim>\<open>E.fr.zero\<close> of the field backend.\<close>
  "fr_zero = fr_of_nat 0"

definition fr_add :: "FrElement \<Rightarrow> FrElement \<Rightarrow> FrElement" where
  \<comment> \<open>Modelled from the spec: \<^verbatim>\<open>E.fr.add\<close> of the field backend.\<close>
  "fr_add x y = fr_of_nat ((fr_val x + fr_val y) mod Fr_q)"

definition fr_sub :: "FrElement \<Rightarrow> FrElement \<Rightarrow> FrElement" where
  \<comment> \<open>Modelled from the spec: \<^verbatim>\<open>E.fr.sub\<close> of the field backend.\<close>
  "fr_sub x y = fr_of_nat ((fr_val x + (Fr_q - fr_val y mod Fr_q)) mod Fr_q)"

definition fr_mul :: "FrElement \<Rightarrow> FrElement \<Rightarrow> FrElement" where
  \<comment> \<open>Modelled from the spec: \<^verbatim>\<open>E.fr.mul\<close> of the field backend.\<close>
  "fr_mul x y = fr_of_nat ((fr_val x * fr_val y * Fr_Rinv) mod Fr_q)"

definition fr_toMontgomery :: "FrElement \<Rightarrow> FrElement" where
  \<comment> \<open>Modelled from the spec: \<^verbatim>\<open>E.fr.toMontgomery\<close> of the field backend.\<close>
  "fr_toMontgomery x = fr_of_nat ((fr_val x * Fr_R) mod Fr_q)"

definition fr_fromMontgomery :: "FrElement \<Rightarrow> FrElement" where
  \<comment> \<open>Modelled from the spec: \<^verbatim>\<open>E.fr.fromMontgomery\<close> of the field backend.\<close>
  "fr_fromMontgomery x = fr_of_nat ((fr_val x * Fr_Rinv) mod Fr_q)"

section \<open>Byte views of scalars\<close>

text \<open>
  \<^verbatim>\<open>prove\<close> hands scalars to the curve backend as \<^verbatim>\<open>uint8_t*\<close> with a width in bytes.
  A byte pointer is the memory seen from it, byte by byte. \<open>fr_bytes\<close> is the cast
  \<^verbatim>\<open>(uint8_t*)\<close> of a pointer to field elements: element \<open>j div 32\<close> holds byte \<open>j\<close>,
  which on the little-endian targets of the source is digit \<open>j mod 32\<close> of the element's
  integer in base 256. \<open>ptr_add\<close> is the addition of a byte offset to the pointer, and
  \<open>read_le\<close> the little-endian integer of \<open>sz\<close> bytes from offset \<open>off\<close> on.
\<close>

type_synonym bytes = "nat \<Rightarrow> 8 word"

definition sizeof_FrElement :: nat where
  \<comment> \<open>\<^verbatim>\<open>sizeof\<close> of an element: four limbs of eight bytes.\<close>
  "sizeof_FrElement = 32"

definition fr_bytes :: "(nat \<Rightarrow> FrElement) \<Rightarrow> bytes" where
  "fr_bytes p = (\<lambda>j. of_nat (fr_val (p (j div sizeof_FrElement)) div 256 ^ (j mod sizeof_FrElement)))"

definition ptr_add :: "bytes \<Rightarrow> nat \<Rightarrow> bytes" where
  "ptr_add p off = (\<lambda>j. p (off + j))"

definition read_le :: "bytes \<Rightarrow> nat \<Rightarrow> nat \<Rightarrow> nat" where
  "read_le p off sz = (\<Sum>k\<leftarrow>[0..<sz]. unat (p (off + k)) * 256 ^ k)"

section \<open>Curve groups\<close>

text \<open>
  Modelled from the spec: the curve backends \<^verbatim>\<open>E.g1\<close> and \<^verbatim>\<open>E.g2\<close> (\<^verbatim>\<open>add\<close>, \<^verbatim>\<open>sub\<close>,
  \<^verbatim>\<open>mulByScalar\<close>, \<^verbatim>\<open>multiMulByScalar\<close>, \<^verbatim>\<open>copy\<close>), which are not in the source file.
  G1 and G2 are commutative groups, written additively, so \<^verbatim>\<open>add\<close> and \<^verbatim>\<open>sub\<close> are \<open>+\<close>
  and \<open>-\<close> of any type of class \<open>ab_group_add\<close>, and affine and projective points are
  one type. \<open>g_scale n P\<close> is \<open>n \<cdot> P\<close>. \<^verbatim>\<open>mulByScalar\<close> reads its scalar as the raw
  little-endian integer of \<open>scalarSize\<close> bytes, and \<^verbatim>\<open>multiMulByScalar\<close> is the sum of
  \<open>s\<^sub>i \<cdot> P\<^sub>i\<close> over \<open>n\<close> bases and \<open>n\<close> consecutive scalars of \<open>scalarSize\<close> bytes each.
\<close>

primrec g_scale :: "nat \<Rightarrow> 'g::ab_group_add \<Rightarrow> 'g" where
  \<comment> \<open>Modelled from the spec: the multiple of a point by a natural number.\<close>
  "g_scale 0 P = 0"
| "g_scale (Suc n) P = P + g_scale n P"

definition mulByScalar :: "'g::ab_group_add \<Rightarrow> bytes \<Rightarrow> nat \<Rightarrow> 'g" where
  \<comment> \<open>Modelled from the spec: \<^verbatim>\<open>mulByScalar\<close> of the curve backend.\<close>
  "mulByScalar base scalar scalarSize = g_scale (read_le scalar 0 scalarSize) base"

definition multiMulByScalar ::
  "(nat \<Rightarrow> 'g::ab_group_add) \<Rightarrow> bytes \<Rightarrow> nat \<Rightarrow> nat \<Rightarrow> 'g" where
  \<comment> \<open>Modelled from the spec: \<^verbatim>\<open>multiMulByScalar\<close> of the curve backend.\<close>
  "multiMulByScalar bases scalars scalarSize n =
     (\<Sum>i\<leftarrow>[0..<n]. g_scale (read_le scalars (i * scalarSize) scalarSize) (bases i))"

section \<open>The prover\<close>

text \<open>
  The FFT engine \<^verbatim>\<open>fft_\<close> is not in the source file: its four operations that \<^verbatim>\<open>prove\<close>
  calls are a parameter of the model. \<^verbatim>\<open>fft\<close> and \<^verbatim>\<open>ifft\<close> work in place on an array and
  its length; the model's return the new contents.

  A \<^verbatim>\<open>Coef\<close> is one record of the coefficient stream, with the members \<^verbatim>\<open>m\<close>, \<^verbatim>\<open>c\<close>,
  \<^verbatim>\<open>s\<close> and \<^verbatim>\<open>coef\<close> that \<^verbatim>\<open>prove\<close> reads. The members of \<^verbatim>\<open>Prover\<close> are those that
  \<^verbatim>\<open>makeProver\<close> passes to its constructor, with the widths of \<^verbatim>\<open>makeProver\<close>'s
  parameters; the tables it holds by pointer are functions from an index. A \<^verbatim>\<open>Proof\<close>
  has the members \<^verbatim>\<open>A\<close>, \<^verbatim>\<open>B\<close> and \<^verbatim>\<open>C\<close>. Members with one-letter names carry the name
  of their structure as a prefix.
\<close>

record FFT =
  log2 :: "nat \<Rightarrow> nat"
  root :: "nat \<Rightarrow> nat \<Rightarrow> FrElement"
  fft :: "FrElement list \<Rightarrow> nat \<Rightarrow> FrElement list"
  ifft :: "FrElement list \<Rightarrow> nat \<Rightarrow> FrElement list"

record Coef =
  coef_m :: "32 word"
  coef_c :: "32 word"
  coef_s :: "32 word"
  coef_coef :: FrElement

record ('g1, 'g2) Prover =
  fft_engine :: FFT
  nVars :: "32 word"
  nPublic :: "32 word"
  domainSize :: "32 word"
  nCoefs :: "64 word"
  vk_alpha1 :: 'g1
  vk_beta1 :: 'g1
  vk_beta2 :: 'g2
  vk_delta1 :: 'g1
  vk_delta2 :: 'g2
  coefs :: "nat \<Rightarrow> Coef"
  pointsA :: "nat \<Rightarrow> 'g1"
  pointsB1 :: "nat \<Rightarrow> 'g1"
  pointsB2 :: "nat \<Rightarrow> 'g2"
  pointsC :: "nat \<Rightarrow> 'g1"
  pointsH :: "nat \<Rightarrow> 'g1"

record ('p1, 'p2) Proof =
  proof_A :: 'p1
  proof_B :: 'p2
  proof_C :: 'p1

subsection \<open>The four witness multi-exponentiations (lines 85-112)\<close>

text \<open>
  \<^verbatim>\<open>wtns\<close> is a pointer to field elements, with no length. \<^verbatim>\<open>sW\<close> is
  \<^verbatim>\<open>sizeof(wtns[0])\<close>, a \<^verbatim>\<open>uint32_t\<close>. The scalars of the fourth product start at the byte
  address \<^verbatim>\<open>(uint64_t)wtns + (nPublic + 1) * sW\<close>, where the product is one of 32-bit
  unsigned integers and so is taken modulo \<open>2\<^sup>3\<^sup>2\<close> before it is added, and their number
  \<^verbatim>\<open>nVars - nPublic - 1\<close> is a 32-bit unsigned difference. The tasks run concurrently with
  the rest of \<^verbatim>\<open>prove\<close>; they only read, so each is a function of the key and the
  witness.
\<close>

definition sW :: "32 word" where
  "sW = 32"

definition prove_pi_a :: "('g1::ab_group_add, 'g2) Prover \<Rightarrow> (nat \<Rightarrow> FrElement) \<Rightarrow> 'g1" where
  "prove_pi_a pk wtns =
     multiMulByScalar (pointsA pk) (fr_bytes wtns) (unat sW) (unat (nVars pk))"

definition prove_pib1 :: "('g1::ab_group_add, 'g2) Prover \<Rightarrow> (nat \<Rightarrow> FrElement) \<Rightarrow> 'g1" where
  "prove_pib1 pk wtns =
     multiMulByScalar (pointsB1 pk) (fr_bytes wtns) (unat sW) (unat (nVars pk))"

definition prove_pi_b :: "('g1, 'g2::ab_group_add) Prover \<Rightarrow> (nat \<Rightarrow> FrElement) \<Rightarrow> 'g2" where
  "prove_pi_b pk wtns =
     multiMulByScalar (pointsB2 pk) (fr_bytes wtns) (unat sW) (unat (nVars pk))"

definition prove_pi_c :: "('g1::ab_group_add, 'g2) Prover \<Rightarrow> (nat \<Rightarrow> FrElement) \<Rightarrow> 'g1" where
  "prove_pi_c pk wtns =
     multiMulByScalar (pointsC pk)
       (ptr_add (fr_bytes wtns) (unat ((nPublic pk + 1) * sW))) (unat sW)
       (unat (nVars pk - nPublic pk - 1))"

subsection \<open>Allocation and initialisation (lines 115-133)\<close>

text \<open>
  \<^verbatim>\<open>new FrElement[domainSize]\<close> returns \<open>domainSize\<close> elements of unspecified contents:
  \<open>mem k i\<close> is what element \<open>i\<close> of the \<open>k\<close>-th allocation holds. The loop that follows
  stores zero into \<open>a[i]\<close> and \<open>b[i]\<close>. A \<^verbatim>\<open>parallel_for\<close> over a blocked range runs its
  body once for each index; where the iterations touch different elements, as here, their
  order does not matter, and the model runs them in index order.

  The loops of \<^verbatim>\<open>prove\<close> count with an \<^verbatim>\<open>int\<close>. The model counts with natural numbers,
  which is what the C++ does while the bound is below \<open>2\<^sup>3\<^sup>1\<close>; from there on the C++
  int overflows, and its behaviour is undefined (see \<open>int_index_ok\<close>).

  \<open>spec_init\<close> is the initialisation as the specification words it, with all three
  vectors cleared.
\<close>

type_synonym abc = "FrElement list \<times> FrElement list \<times> FrElement list"

definition new_array :: "(nat \<Rightarrow> FrElement) \<Rightarrow> nat \<Rightarrow> FrElement list" where
  "new_array junk n = map junk [0..<n]"

definition prove_alloc :: "32 word \<Rightarrow> (nat \<Rightarrow> nat \<Rightarrow> FrElement) \<Rightarrow> abc" where
  "prove_alloc dsz mem =
     (new_array (mem 0) (unat dsz), new_array (mem 1) (unat dsz), new_array (mem 2) (unat dsz))"

definition prove_init :: "32 word \<Rightarrow> (nat \<Rightarrow> nat \<Rightarrow> FrElement) \<Rightarrow> abc" where
  "prove_init dsz mem =
     (case prove_alloc dsz mem of (a, b, c) \<Rightarrow>
        case fold (\<lambda>i (a, b). (a[i := fr_zero], b[i := fr_zero])) [0..<unat dsz] (a, b) of
          (a, b) \<Rightarrow> (a, b, c))"

definition spec_init :: "32 word \<Rightarrow> (nat \<Rightarrow> nat \<Rightarrow> FrElement) \<Rightarrow> abc" where
  "spec_init dsz mem =
     (case prove_alloc dsz mem of (a, b, c) \<Rightarrow>
        fold (\<lambda>i (a, b, c). (a[i := fr_zero], b[i := fr_zero], c[i := fr_zero]))
          [0..<unat dsz] (a, b, c))"

subsection \<open>The coefficient scatter (lines 137-156)\<close>

text \<open>
  Each record adds \<^verbatim>\<open>wtns[s] * coef\<close> to \<^verbatim>\<open>a[c]\<close> when \<^verbatim>\<open>m\<close> is 0 and to \<^verbatim>\<open>b[c]\<close>
  otherwise, under the spin lock of \<^verbatim>\<open>c % NUM_LOCKS\<close>: the read, the addition and the write
  of one record are atomic with respect to every write to the same element, so a parallel
  run has the effect of the records processed one at a time in some order.
  \<open>process_coefs\<close> processes a list of records in the list's order. An index \<^verbatim>\<open>c\<close> outside
  the vector is a write out of bounds, undefined in C++: the model has no result there
  (\<open>None\<close>).

  \<open>serial_sum\<close> is the specification's serial result for one bucket: the sum, in stream
  order and from \<open>x0\<close>, of the addends of the records that target this polynomial and index.
\<close>

fun process_coefs ::
  "(nat \<Rightarrow> FrElement) \<Rightarrow> Coef list \<Rightarrow> FrElement list \<times> FrElement list \<Rightarrow>
     (FrElement list \<times> FrElement list) option" where
  "process_coefs wtns [] ab = Some ab"
| "process_coefs wtns (cf # cfs) (a, b) =
     (let aux = fr_mul (wtns (unat (coef_s cf))) (coef_coef cf);
          i = unat (coef_c cf)
      in if coef_m cf = 0
         then if i < length a then process_coefs wtns cfs (a[i := fr_add (a ! i) aux], b)
              else None
         else if i < length b then process_coefs wtns cfs (a, b[i := fr_add (b ! i) aux])
              else None)"

definition coef_aux :: "(nat \<Rightarrow> FrElement) \<Rightarrow> Coef \<Rightarrow> FrElement" where
  "coef_aux wtns cf = fr_mul (wtns (unat (coef_s cf))) (coef_coef cf)"

definition targets :: "bool \<Rightarrow> nat \<Rightarrow> Coef \<Rightarrow> bool" where
  "targets poly_a j cf \<longleftrightarrow> (coef_m cf = 0) = poly_a \<and> unat (coef_c cf) = j"

definition serial_sum :: "(nat \<Rightarrow> FrElement) \<Rightarrow> Coef list \<Rightarrow> bool \<Rightarrow> nat \<Rightarrow> FrElement \<Rightarrow> FrElement" where
  "serial_sum wtns cfs poly_a j x0 =
     fold (\<lambda>cf acc. fr_add acc (coef_aux wtns cf)) (filter (targets poly_a j) cfs) x0"

subsection \<open>The product vector and the coset evaluations (lines 160-275)\<close>

text \<open>
  \<open>calc_c\<close> is the loop \<^verbatim>\<open>c[i] = a[i] * b[i]\<close>, \<open>coset_chain\<close> one of the three tasks
  (inverse FFT, multiplication of element \<open>i\<close> by \<^verbatim>\<open>root(domainPower + 1, i)\<close>, FFT), and
  \<open>calc_abc\<close> the loop that stores \<^verbatim>\<open>fromMontgomery(a[i] * b[i] - c[i])\<close> into \<^verbatim>\<open>a[i]\<close>.
  \<open>prove_pih\<close> is the multi-exponentiation of \<^verbatim>\<open>pointsH\<close> by the bytes of \<^verbatim>\<open>a\<close>.
  \<open>spec_coset\<close> is the chain as the specification words it, \<open>spec_h_evals\<close> its vector
  \<open>h_evals\<close> (element \<open>i\<close> is \<open>a[i] \<cdot> b[i] - c[i]\<close> of the three coset images, in natural
  form), and \<open>spec_msm\<close> its \<open>MSM\<close> of \<open>n\<close> points by \<open>n\<close> scalars.
\<close>

definition calc_c :: "nat \<Rightarrow> abc \<Rightarrow> abc" where
  "calc_c n = (\<lambda>(a, b, c). (a, b, fold (\<lambda>i c. c[i := fr_mul (a ! i) (b ! i)]) [0..<n] c))"

definition coset_chain :: "FFT \<Rightarrow> nat \<Rightarrow> nat \<Rightarrow> FrElement list \<Rightarrow> FrElement list" where
  "coset_chain F n domainPower x =
     (let x = ifft F x n;
          x = fold (\<lambda>i x. x[i := fr_mul (x ! i) (root F (domainPower + 1) i)]) [0..<n] x
      in fft F x n)"

definition calc_abc :: "nat \<Rightarrow> abc \<Rightarrow> FrElement list" where
  "calc_abc n = (\<lambda>(a, b, c).
     fold (\<lambda>i a. a[i := fr_fromMontgomery (fr_sub (fr_mul (a ! i) (b ! i)) (c ! i))]) [0..<n] a)"

definition prove_h_evals :: "('g1, 'g2) Prover \<Rightarrow> abc \<Rightarrow> FrElement list" where
  "prove_h_evals pk = (\<lambda>(a, b, c).
     let n = unat (domainSize pk);
         domainPower = log2 (fft_engine pk) n;
         a = coset_chain (fft_engine pk) n domainPower a;
         b = coset_chain (fft_engine pk) n domainPower b;
         c = coset_chain (fft_engine pk) n domainPower c
     in calc_abc n (a, b, c))"

definition prove_pih :: "('g1::ab_group_add, 'g2) Prover \<Rightarrow> FrElement list \<Rightarrow> 'g1" where
  "prove_pih pk a =
     multiMulByScalar (pointsH pk) (fr_bytes (\<lambda>i. a ! i)) sizeof_FrElement
       (unat (domainSize pk))"

definition spec_coset :: "FFT \<Rightarrow> nat \<Rightarrow> FrElement list \<Rightarrow> FrElement list" where
  "spec_coset F n x =
     fft F (map (\<lambda>i. fr_mul (ifft F x n ! i) (root F (log2 F n + 1) i)) [0..<n]) n"

definition spec_h_evals :: "FFT \<Rightarrow> nat \<Rightarrow> abc \<Rightarrow> FrElement list" where
  "spec_h_evals F n = (\<lambda>(a, b, c).
     map (\<lambda>i. fr_fromMontgomery
            (fr_sub (fr_mul (spec_coset F n a ! i) (spec_coset F n b ! i)) (spec_coset F n c ! i)))
       [0..<n])"

definition spec_msm :: "(nat \<Rightarrow> 'g::ab_group_add) \<Rightarrow> FrElement list \<Rightarrow> nat \<Rightarrow> 'g" where
  "spec_msm bases scalars n = (\<Sum>i\<leftarrow>[0..<n]. g_scale (fr_val (scalars ! i)) (bases i))"

subsection \<open>The blinding scalars (lines 288-316)\<close>

text \<open>
  \<^verbatim>\<open>mpn_cmp\<close> is GMP's comparison of two numbers of \<open>n\<close> limbs, from the most significant
  limb down: positive, zero or negative. The \<open>k\<close>-th call of \<^verbatim>\<open>randombytes_buf\<close> fills the
  32 bytes of its buffer with \<open>randombytes_buf k\<close>, a parameter of the model; the number of
  calls made so far is the state of the source. Each turn of the loop draws, clears the two
  top bits of limb 3 and compares with \<^verbatim>\<open>fr_modulus\<close>; the loop goes on while the result is
  not negative. It need not end, so it is a partial function: \<open>None\<close> when it runs forever.
\<close>

fun mpn_cmp :: "64 word list \<Rightarrow> 64 word list \<Rightarrow> nat \<Rightarrow> int" where
  "mpn_cmp s1 s2 0 = 0"
| "mpn_cmp s1 s2 (Suc n) =
     (if s1 ! n = s2 ! n then mpn_cmp s1 s2 n
      else if s2 ! n < s1 ! n then 1 else - 1)"

definition mask_top :: "FrRawElement \<Rightarrow> FrRawElement" where
  "mask_top r = Limbs (v0 r) (v1 r) (v2 r) (v3 r AND 0x3FFFFFFFFFFFFFFF)"

partial_function (option) sample_scalar ::
  "(nat \<Rightarrow> FrRawElement) \<Rightarrow> nat \<Rightarrow> (FrRawElement \<times> nat) option" where
  "sample_scalar randombytes_buf k =
     (let r = mask_top (randombytes_buf k);
          cmp = mpn_cmp (limbs r) (limbs fr_modulus) Fr_N64
      in if cmp \<ge> 0 then sample_scalar randombytes_buf (Suc k) else Some (r, Suc k))"

declare sample_scalar.simps [code]

subsection \<open>The assembly of the proof (lines 325-359)\<close>

text \<open>
  The statements of the source in their order; \<^verbatim>\<open>(uint8_t*)&r\<close> is the byte view of the
  one element \<open>r\<close>.
\<close>

definition prove_rs :: "FrElement \<Rightarrow> FrElement \<Rightarrow> FrElement" where
  "prove_rs r s = fr_toMontgomery (fr_mul r s)"

definition prove_assemble ::
  "('g1::ab_group_add, 'g2::ab_group_add) Prover \<Rightarrow> 'g1 \<Rightarrow> 'g1 \<Rightarrow> 'g2 \<Rightarrow> 'g1 \<Rightarrow> 'g1 \<Rightarrow>
     FrElement \<Rightarrow> FrElement \<Rightarrow> ('g1, 'g2) Proof" where
  "prove_assemble pk pi_a pib1 pi_b pi_c pih r s =
     (let pi_a = pi_a + vk_alpha1 pk;
          p1 = mulByScalar (vk_delta1 pk) (fr_bytes (\<lambda>_. r)) sizeof_FrElement;
          pi_a = pi_a + p1;
          pi_b = pi_b + vk_beta2 pk;
          p2 = mulByScalar (vk_delta2 pk) (fr_bytes (\<lambda>_. s)) sizeof_FrElement;
          pi_b = pi_b + p2;
          pib1 = pib1 + vk_beta1 pk;
          p1 = mulByScalar (vk_delta1 pk) (fr_bytes (\<lambda>_. s)) sizeof_FrElement;
          pib1 = pib1 + p1;
          pi_c = pi_c + pih;
          p1 = mulByScalar pi_a (fr_bytes (\<lambda>_. s)) sizeof_FrElement;
          pi_c = pi_c + p1;
          p1 = mulByScalar pib1 (fr_bytes (\<lambda>_. r)) sizeof_FrElement;
          pi_c = pi_c + p1;
          rs = prove_rs r s;
          p1 = mulByScalar (vk_delta1 pk) (fr_bytes (\<lambda>_. rs)) sizeof_FrElement;
          pi_c = pi_c - p1
      in \<lparr>proof_A = pi_a, proof_B = pi_b, proof_C = pi_c\<rparr>)"

subsection \<open>\<^verbatim>\<open>Prover::prove\<close>\<close>

text \<open>
  \<open>prove_quotient\<close> is the part of \<^verbatim>\<open>prove\<close> from the scatter to the multi-exponentiation
  of \<^verbatim>\<open>pointsH\<close> (lines 135-283), \<open>prove_from\<close> all that follows the initialisation, and
  \<open>prove\<close> the whole function. Its result is \<open>None\<close> where the C++ has none: a sampling
  loop that never ends, or undefined behaviour (a write out of bounds in the scatter, or
  an \<^verbatim>\<open>int\<close> loop index that overflows, which \<open>int_index_ok\<close> excludes). The source has
  no other way to fail: it neither throws nor returns an error.

  \<open>wtns\<close> is the memory at the pointer that \<^verbatim>\<open>prove\<close> is given. Where the caller passes
  a vector \<open>ws\<close>, that memory is \<open>wtns_ptr ws beyond\<close>: the vector, then whatever follows it.
  A read past the end of the vector is out of bounds in the C++ and has no defined value:
  what is proved of a vector below is proved for reads that stay inside it, and for every
  \<open>beyond\<close>. \<open>prove_zero_init_c\<close> is \<open>prove\<close> with the specification's initialisation.
\<close>

definition prove_quotient ::
  "('g1::ab_group_add, 'g2) Prover \<Rightarrow> (nat \<Rightarrow> FrElement) \<Rightarrow> abc \<Rightarrow> 'g1 option" where
  "prove_quotient pk wtns = (\<lambda>(a, b, c).
     case process_coefs wtns (map (coefs pk) [0..<unat (nCoefs pk)]) (a, b) of
       None \<Rightarrow> None
     | Some (a, b) \<Rightarrow>
         let abc = calc_c (unat (domainSize pk)) (a, b, c);
             a = prove_h_evals pk abc
         in Some (prove_pih pk a))"

definition prove_from ::
  "('g1::ab_group_add, 'g2::ab_group_add) Prover \<Rightarrow> (nat \<Rightarrow> FrElement) \<Rightarrow>
     (nat \<Rightarrow> FrRawElement) \<Rightarrow> nat \<Rightarrow> abc \<Rightarrow> ('g1, 'g2) Proof option" where
  "prove_from pk wtns randombytes_buf k abc =
     (let pi_a = prove_pi_a pk wtns;
          pib1 = prove_pib1 pk wtns;
          pi_b = prove_pi_b pk wtns;
          pi_c = prove_pi_c pk wtns
      in case prove_quotient pk wtns abc of
           None \<Rightarrow> None
         | Some pih \<Rightarrow>
             (case sample_scalar randombytes_buf k of
                None \<Rightarrow> None
              | Some (r, k) \<Rightarrow>
                  (case sample_scalar randombytes_buf k of
                     None \<Rightarrow> None
                   | Some (s, k) \<Rightarrow> Some (prove_assemble pk pi_a pib1 pi_b pi_c pih r s))))"

definition int_index_ok :: "('g1, 'g2) Prover \<Rightarrow> bool" where
  "int_index_ok pk \<longleftrightarrow> unat (domainSize pk) < 2 ^ 31 \<and> unat (nCoefs pk) < 2 ^ 31"

definition prove ::
  "('g1::ab_group_add, 'g2::ab_group_add) Prover \<Rightarrow> (nat \<Rightarrow> FrElement) \<Rightarrow>
     (nat \<Rightarrow> nat \<Rightarrow> FrElement) \<Rightarrow> (nat \<Rightarrow> FrRawElement) \<Rightarrow> nat \<Rightarrow> ('g1, 'g2) Proof option" where
  "prove pk wtns mem randombytes_buf k =
     (if int_index_ok pk
      then prove_from pk wtns randombytes_buf k (prove_init (domainSize pk) mem)
      else None)"

definition wtns_ptr :: "FrElement list \<Rightarrow> (nat \<Rightarrow> FrElement) \<Rightarrow> nat \<Rightarrow> FrElement" where
  "wtns_ptr ws beyond = (\<lambda>i. if i < length ws then ws ! i else beyond (i - length ws))"

definition prove_zero_init_c ::
  "('g1::ab_group_add, 'g2::ab_group_add) Prover \<Rightarrow> (nat \<Rightarrow> FrElement) \<Rightarrow>
     (nat \<Rightarrow> nat \<Rightarrow> FrElement) \<Rightarrow> (nat \<Rightarrow> FrRawElement) \<Rightarrow> nat \<Rightarrow> ('g1, 'g2) Proof option" where
  "prove_zero_init_c pk wtns mem randombytes_buf k =
     (if int_index_ok pk
      then prove_from pk wtns randombytes_buf k (spec_init (domainSize pk) mem)
      else None)"

section \<open>The JSON projections (lines 362-410)\<close>

text \<open>
  A value of the JSON library is null, a string, an array or an object; an object keeps
  its members sorted by key (the library's default object is a \<^verbatim>\<open>std::map\<close>).
  \<open>json_assign p k v\<close> is \<^verbatim>\<open>p[k] = v\<close> and \<open>json_at_push_back p k v\<close> is
  \<^verbatim>\<open>p[k].push_back(v)\<close>: indexing null makes it an object, indexing a missing key inserts
  null, \<^verbatim>\<open>push_back\<close> on null makes it an array, and both operations throw on a value of
  another kind (\<open>None\<close>). \<^verbatim>\<open>p[k] = {}\<close> assigns null.
\<close>

datatype json = JNull | JString string | JArray "json list" | JObject "(string \<times> json) list"

fun obj_insert :: "string \<Rightarrow> json \<Rightarrow> (string \<times> json) list \<Rightarrow> (string \<times> json) list" where
  "obj_insert k v [] = [(k, v)]"
| "obj_insert k v ((k', v') # kvs) =
     (if k = k' then (k, v) # kvs
      else if k < k' then (k, v) # (k', v') # kvs
      else (k', v') # obj_insert k v kvs)"

fun json_assign :: "json \<Rightarrow> string \<Rightarrow> json \<Rightarrow> json option" where
  "json_assign JNull k v = Some (JObject [(k, v)])"
| "json_assign (JObject kvs) k v = Some (JObject (obj_insert k v kvs))"
| "json_assign _ k v = None"

fun json_push_back :: "json \<Rightarrow> json \<Rightarrow> json option" where
  "json_push_back JNull v = Some (JArray [v])"
| "json_push_back (JArray vs) v = Some (JArray (vs @ [v]))"
| "json_push_back _ v = None"

fun json_at :: "json \<Rightarrow> string \<Rightarrow> json option" where
  "json_at JNull k = Some JNull"
| "json_at (JObject kvs) k = (case map_of kvs k of None \<Rightarrow> Some JNull | Some v \<Rightarrow> Some v)"
| "json_at _ k = None"

definition json_at_push_back :: "json \<Rightarrow> string \<Rightarrow> json \<Rightarrow> json option" where
  "json_at_push_back p k v =
     Option.bind (json_at p k) (\<lambda>e. Option.bind (json_push_back e v) (json_assign p k))"

text \<open>
  Modelled from the spec: \<^verbatim>\<open>E.f1.toString\<close> of the base-field backend, which is not in
  the source file, gives the decimal string of the natural-form integer of an element.
  \<open>natural\<close> is that integer, a parameter; \<open>string_of_nat\<close> writes a natural number in
  decimal.
\<close>

definition digit_char :: "nat \<Rightarrow> char" where
  "digit_char d = ''0123456789'' ! d"

function string_of_nat :: "nat \<Rightarrow> string" where
  "string_of_nat n =
     (if n < 10 then [digit_char n] else string_of_nat (n div 10) @ [digit_char (n mod 10)])"
  by pat_completeness auto
termination
  by (relation "measure id") auto

declare string_of_nat.simps [simp del]

record 'f F2Element =
  f2_a :: 'f
  f2_b :: 'f

record 'f G1PointAffine =
  g1_x :: 'f
  g1_y :: 'f

record 'f G2PointAffine =
  g2_x :: "'f F2Element"
  g2_y :: "'f F2Element"

definition f1_toString :: "('f \<Rightarrow> nat) \<Rightarrow> 'f \<Rightarrow> string" where
  \<comment> \<open>Modelled from the spec: \<^verbatim>\<open>E.f1.toString\<close> of the base-field backend.\<close>
  "f1_toString natural x = string_of_nat (natural x)"

definition toJsonStr :: "('f \<Rightarrow> nat) \<Rightarrow> ('f G1PointAffine, 'f G2PointAffine) Proof \<Rightarrow> string" where
  \<open>toJsonStr natural p =
     ''{ "pi_a":["'' @ f1_toString natural (g1_x (proof_A p)) @ ''","'' @
       f1_toString natural (g1_y (proof_A p)) @ ''","1"], '' @
     '' "pi_b": [["'' @ f1_toString natural (f2_a (g2_x (proof_B p))) @ ''","'' @
       f1_toString natural (f2_b (g2_x (proof_B p))) @ ''"],["'' @
       f1_toString natural (f2_a (g2_y (proof_B p))) @ ''","'' @
       f1_toString natural (f2_b (g2_y (proof_B p))) @ ''"], ["1","0"]], '' @
     '' "pi_c": ["'' @ f1_toString natural (g1_x (proof_C p)) @ ''","'' @
       f1_toString natural (g1_y (proof_C p)) @ ''","1"], '' @
     '' "protocol":"groth16" }''\<close>

definition toJson :: "('f \<Rightarrow> nat) \<Rightarrow> ('f G1PointAffine, 'f G2PointAffine) Proof \<Rightarrow> json option" where
  "toJson natural pr = do {
     p \<leftarrow> json_assign JNull ''pi_a'' JNull;
     p \<leftarrow> json_at_push_back p ''pi_a'' (JString (f1_toString natural (g1_x (proof_A pr))));
     p \<leftarrow> json_at_push_back p ''pi_a'' (JString (f1_toString natural (g1_y (proof_A pr))));
     p \<leftarrow> json_at_push_back p ''pi_a'' (JString ''1'');
     x2 \<leftarrow> json_push_back JNull (JString (f1_toString natural (f2_a (g2_x (proof_B pr)))));
     x2 \<leftarrow> json_push_back x2 (JString (f1_toString natural (f2_b (g2_x (proof_B pr)))));
     y2 \<leftarrow> json_push_back JNull (JString (f1_toString natural (f2_a (g2_y (proof_B pr)))));
     y2 \<leftarrow> json_push_back y2 (JString (f1_toString natural (f2_b (g2_y (proof_B pr)))));
     z2 \<leftarrow> json_push_back JNull (JString ''1'');
     z2 \<leftarrow> json_push_back z2 (JString ''0'');
     p \<leftarrow> json_assign p ''pi_b'' JNull;
     p \<leftarrow> json_at_push_back p ''pi_b'' x2;
     p \<leftarrow> json_at_push_back p ''pi_b'' y2;
     p \<leftarrow> json_at_push_back p ''pi_b'' z2;
     p \<leftarrow> json_assign p ''pi_c'' JNull;
     p \<leftarrow> json_at_push_back p ''pi_c'' (JString (f1_toString natural (g1_x (proof_C pr))));
     p \<leftarrow> json_at_push_back p ''pi_c'' (JString (f1_toString natural (g1_y (proof_C pr))));
     p \<leftarrow> json_at_push_back p ''pi_c'' (JString ''1'');
     json_assign p ''protocol'' (JString ''groth16'')
   }"

text \<open>
  To state what the two projections emit: \<open>json_text\<close> is the text of a JSON value with
  no blanks, \<open>decimal_value\<close> the number a string of digits denotes, and
  \<open>spec_proof_json\<close> the object of the specification.
\<close>

fun sep_by :: "string \<Rightarrow> string list \<Rightarrow> string" where
  "sep_by d [] = []"
| "sep_by d [x] = x"
| "sep_by d (x # y # ys) = x @ d @ sep_by d (y # ys)"

fun json_text :: "json \<Rightarrow> string" where
  "json_text JNull = ''null''"
| \<open>json_text (JString t) = ''"'' @ t @ ''"''\<close>
| "json_text (JArray vs) = ''['' @ sep_by '','' (map json_text vs) @ '']''"
| \<open>json_text (JObject kvs) =
     ''{'' @ sep_by '','' (map (\<lambda>(k, v). ''"'' @ k @ ''":'' @ json_text v) kvs) @ ''}''\<close>

definition digit_val :: "char \<Rightarrow> nat" where
  "digit_val ch = of_char ch - 48"

definition decimal_value :: "string \<Rightarrow> nat" where
  "decimal_value t = foldl (\<lambda>acc ch. 10 * acc + digit_val ch) 0 t"

definition spec_proof_json ::
  "('f \<Rightarrow> nat) \<Rightarrow> ('f G1PointAffine, 'f G2PointAffine) Proof \<Rightarrow> json" where
  "spec_proof_json natural p = JObject
     [(''pi_a'', JArray [JString (string_of_nat (natural (g1_x (proof_A p)))),
                        JString (string_of_nat (natural (g1_y (proof_A p)))), JString ''1'']),
      (''pi_b'', JArray [JArray [JString (string_of_nat (natural (f2_a (g2_x (proof_B p))))),
                                JString (string_of_nat (natural (f2_b (g2_x (proof_B p)))))],
                        JArray [JString (string_of_nat (natural (f2_a (g2_y (proof_B p))))),
                                JString (string_of_nat (natural (f2_b (g2_y (proof_B p)))))],
                        JArray [JString ''1'', JString ''0'']]),
      (''pi_c'', JArray [JString (string_of_nat (natural (g1_x (proof_C p)))),
                        JString (string_of_nat (natural (g1_y (proof_C p)))), JString ''1'']),
      (''protocol'', JString ''groth16'')]"

section \<open>Example inputs\<close>

text \<open>
  A random source whose first draw is rejected and whose later draws are 5; a witness
  pointer; three coefficient records; an FFT engine that works in place; a key with two
  variables, no public input, a domain of size 1 and the first two records, over the
  integers as both groups; the contents of fresh allocations; and a witness vector of three
  elements, one more than the key has variables.
\<close>

definition rng_example :: "nat \<Rightarrow> FrRawElement" where
  "rng_example k = (if k = 0 then Limbs (- 1) (- 1) (- 1) (- 1) else Limbs 5 0 0 0)"

definition wtns_example :: "nat \<Rightarrow> FrElement" where
  "wtns_example i = (if i = 0 then Limbs 1 0 0 0 else Limbs 2 0 0 0)"

definition cf_example1 :: Coef where
  "cf_example1 = \<lparr>coef_m = 0, coef_c = 0, coef_s = 0, coef_coef = Limbs 3 0 0 0\<rparr>"

definition cf_example2 :: Coef where
  "cf_example2 = \<lparr>coef_m = 1, coef_c = 0, coef_s = 1, coef_coef = Limbs 4 0 0 0\<rparr>"

definition cf_example3 :: Coef where
  "cf_example3 = \<lparr>coef_m = 0, coef_c = 0, coef_s = 1, coef_coef = Limbs 5 0 0 0\<rparr>"

definition fft_example :: FFT where
  "fft_example = \<lparr>log2 = (\<lambda>n. 0), root = (\<lambda>p i. Limbs 1 0 0 0), fft = (\<lambda>x n. rev x),
     ifft = (\<lambda>x n. rev x)\<rparr>"

definition pk_example :: "(int, int) Prover" where
  "pk_example = \<lparr>fft_engine = fft_example, nVars = 2, nPublic = 0, domainSize = 1, nCoefs = 2,
     vk_alpha1 = 2, vk_beta1 = 3, vk_beta2 = 5, vk_delta1 = 7, vk_delta2 = 11,
     coefs = (\<lambda>i. if i = 0 then cf_example1 else cf_example2),
     pointsA = (\<lambda>i. 13), pointsB1 = (\<lambda>i. 17), pointsB2 = (\<lambda>i. 19),
     pointsC = (\<lambda>i. 23), pointsH = (\<lambda>i. 29)\<rparr>"

definition mem_example :: "nat \<Rightarrow> nat \<Rightarrow> FrElement" where
  "mem_example k i = Limbs 7 0 0 0"

definition ws_example :: "FrElement list" where
  "ws_example = [Limbs 1 0 0 0, Limbs 2 0 0 0, Limbs 9 0 0 0]"

text \<open>
  A second random source, whose accepted draws have the two top bits set before the
  mask. A second key, with a domain of size 2: its witness and coefficients are in
  Montgomery form (\<open>mont n\<close> is the form of \<open>n\<close>), its FFT engine has two different
  transforms on vectors of two elements and roots that depend on both arguments.
\<close>

definition rng_example2 :: "nat \<Rightarrow> FrRawElement" where
  "rng_example2 k =
     (if k = 0
      then Limbs 0xFFFFFFFFFFFFFFFF 0xFFFFFFFFFFFFFFFF 0xFFFFFFFFFFFFFFFF 0xFFFFFFFFFFFFFFFF
      else Limbs 5 0 0 0xC000000000000000)"

definition mont :: "nat \<Rightarrow> FrElement" where
  "mont n = fr_of_nat ((n * Fr_R) mod Fr_q)"

definition wtns_example2 :: "nat \<Rightarrow> FrElement" where
  "wtns_example2 i = (if i = 0 then mont 1 else if i = 1 then mont 2 else mont 4)"

definition coefs_example2 :: "nat \<Rightarrow> Coef" where
  "coefs_example2 i =
     (if i = 0 then \<lparr>coef_m = 0, coef_c = 0, coef_s = 0, coef_coef = mont 3\<rparr>
      else if i = 1 then \<lparr>coef_m = 0, coef_c = 1, coef_s = 1, coef_coef = mont 5\<rparr>
      else if i = 2 then \<lparr>coef_m = 1, coef_c = 0, coef_s = 2, coef_coef = mont 7\<rparr>
      else if i = 3 then \<lparr>coef_m = 1, coef_c = 1, coef_s = 1, coef_coef = mont 2\<rparr>
      else \<lparr>coef_m = 0, coef_c = 0, coef_s = 2, coef_coef = mont 1\<rparr>)"

definition fft_example2 :: FFT where
  "fft_example2 =
     \<lparr>log2 = (\<lambda>n. if n < 2 then 0 else if n < 4 then 1 else 2),
      root = (\<lambda>p i. mont (10 * p + i + 1)),
      fft = (\<lambda>x n. if length x = 2 then [fr_add (x ! 0) (x ! 1), x ! 0] else x),
      ifft = (\<lambda>x n. if length x = 2 then [x ! 1, fr_add (x ! 0) (x ! 1)] else x)\<rparr>"

definition pk_example2 :: "(int, int) Prover" where
  "pk_example2 = \<lparr>fft_engine = fft_example2, nVars = 3, nPublic = 1, domainSize = 2, nCoefs = 5,
     vk_alpha1 = 2, vk_beta1 = 3, vk_beta2 = 5, vk_delta1 = 7, vk_delta2 = 11,
     coefs = coefs_example2,
     pointsA = (\<lambda>i. 13), pointsB1 = (\<lambda>i. 17), pointsB2 = (\<lambda>i. 19),
     pointsC = (\<lambda>i. 23), pointsH = (\<lambda>i. 29 + int i)\<rparr>"


section \<open>Verification\<close>

subsection \<open>Field elements, byte views and the scalar of the last term\<close>

lemma unat64_less: "unat (u :: 64 word) < 18446744073709551616"
  using unsigned_less [of u, where 'a = nat] by simp

lemma fr_val_less: "fr_val e < 2 ^ 256"
proof (cases e)
  case (Limbs a0 a1 a2 a3)
  show ?thesis
    using unat64_less [of a0] unat64_less [of a1] unat64_less [of a2] unat64_less [of a3]
    unfolding Limbs fr_val.simps by simp
qed

lemma fr_val_of_nat: "fr_val (fr_of_nat n) = n mod 2 ^ 256"
proof -
  define B :: nat where "B = 2 ^ 64"
  have B0: "0 < B" by (simp add: B_def)
  have u: "unat (of_nat k :: 64 word) = k mod B" for k
    by (simp add: unat_of_nat B_def)
  have p: "(2::nat) ^ 128 = B * B" "(2::nat) ^ 192 = B * B * B" "(2::nat) ^ 256 = B * B * B * B"
    by (simp_all add: B_def)
  have d: "n div (B * B) = n div B div B" "n div (B * B * B) = n div B div B div B"
    by (simp_all add: div_mult2_eq)
  have m: "n mod (B * B * B * B) =
      n mod B + B * (n div B mod B) + B * B * (n div B div B mod B)
        + B * B * B * (n div B div B div B mod B)"
    by (simp add: mod_mult2_eq algebra_simps)
  show ?thesis
    unfolding fr_of_nat_def fr_val.simps u p d m B_def [symmetric] by simp
qed

lemma fr_val_of_nat_mod: "fr_val (fr_of_nat (n mod Fr_q)) = n mod Fr_q"
proof -
  have "n mod Fr_q < Fr_q" by (simp add: Fr_q_def)
  also have "Fr_q < 2 ^ 256" by (simp add: Fr_q_def)
  finally show ?thesis by (simp add: fr_val_of_nat)
qed

lemma digits_sum: "(\<Sum>k\<leftarrow>[0..<n]. (x div 256 ^ k mod 256) * 256 ^ k) = x mod 256 ^ n" for x :: nat
proof (induction n)
  case 0
  then show ?case by simp
next
  case (Suc n)
  have "x mod (256 ^ n * 256) = 256 ^ n * (x div 256 ^ n mod 256) + x mod 256 ^ n"
    by (rule mod_mult2_eq)
  then show ?case using Suc by (simp add: mult.commute)
qed

lemma unat_byte: "unat (of_nat k :: 8 word) = k mod 256"
  by (simp add: unat_of_nat)

lemma read_le_fr_bytes:
  "read_le (fr_bytes p) (sizeof_FrElement * i) sizeof_FrElement = fr_val (p i)"
proof -
  have "read_le (fr_bytes p) (32 * i) 32 =
      (\<Sum>k\<leftarrow>[0..<32]. (fr_val (p i) div 256 ^ k mod 256) * 256 ^ k)"
    unfolding read_le_def
  proof (rule arg_cong [where f = sum_list], rule map_cong [OF refl])
    fix k assume "k \<in> set [0..<32]"
    then have k: "k < 32" by simp
    then have "(32 * i + k) div 32 = i" "(32 * i + k) mod 32 = k" by simp_all
    then show "unat (fr_bytes p (32 * i + k)) * 256 ^ k =
        (fr_val (p i) div 256 ^ k mod 256) * 256 ^ k"
      by (simp add: fr_bytes_def sizeof_FrElement_def unat_byte)
  qed
  also have "\<dots> = fr_val (p i) mod 256 ^ 32" by (rule digits_sum)
  also have "\<dots> = fr_val (p i)" using fr_val_less [of "p i"] by simp
  finally show ?thesis by (simp add: sizeof_FrElement_def)
qed

lemma read_le_ptr_add: "read_le (ptr_add p off) o' sz = read_le p (off + o') sz"
  by (simp add: read_le_def ptr_add_def add.assoc)

lemma read_le_element: "read_le (fr_bytes (\<lambda>_. e)) 0 sizeof_FrElement = fr_val e"
  using read_le_fr_bytes [of "\<lambda>_. e" 0] by simp

lemma Fr_R_inverse: "(Fr_R * Fr_Rinv) mod Fr_q = 1"
  by (simp add: Fr_R_def Fr_Rinv_def Fr_q_def)

lemma fr_val_rs: "fr_val (prove_rs r s) = (fr_val r * fr_val s) mod Fr_q"
proof -
  have "fr_val (prove_rs r s) = ((fr_val r * fr_val s * Fr_Rinv) mod Fr_q * Fr_R) mod Fr_q"
    by (simp add: prove_rs_def fr_toMontgomery_def fr_mul_def fr_val_of_nat_mod)
  also have "\<dots> = (fr_val r * fr_val s * (Fr_Rinv * Fr_R)) mod Fr_q"
    by (simp add: mod_mult_left_eq mult.assoc)
  also have "\<dots> = (fr_val r * fr_val s * ((Fr_R * Fr_Rinv) mod Fr_q)) mod Fr_q"
    by (simp add: mod_mult_right_eq mult.commute)
  finally show ?thesis by (simp add: Fr_R_inverse)
qed

lemma mulByScalar_element:
  "mulByScalar base (fr_bytes (\<lambda>_. e)) sizeof_FrElement = g_scale (fr_val e) base"
  by (simp add: mulByScalar_def read_le_element)

lemma mulByScalar_rs:
  "mulByScalar D (fr_bytes (\<lambda>_. fr_toMontgomery (fr_mul r s))) sizeof_FrElement =
     g_scale ((fr_val r * fr_val s) mod Fr_q) D"
  using fr_val_rs [of r s] by (simp add: mulByScalar_element prove_rs_def)

lemma fr_val_mul: "fr_val (fr_mul r s) = (fr_val r * fr_val s * Fr_Rinv) mod Fr_q"
  by (simp add: fr_mul_def fr_val_of_nat_mod)

text \<open>
  Claim C8. In the assembly \<open>r\<close> and \<open>s\<close> go to \<^const>\<open>mulByScalar\<close> as their own bytes,
  and the scalar of the last term is \<^const>\<open>fr_mul\<close> of \<open>r\<close> and \<open>s\<close> put through
  \<^const>\<open>fr_toMontgomery\<close>. Read as little-endian integers, the 32 bytes passed for
  \<open>rs\<close> are \<open>r \<cdot> s mod q\<close> (those of the product alone would be \<open>r \<cdot> s \<cdot> R\<^sup>-\<^sup>1 mod q\<close>), the
  bytes passed for \<open>r\<close> and \<open>s\<close> are their own values, and the last term is
  \<open>(r \<cdot> s mod q) \<cdot> vk_delta1\<close>.
\<close>

theorem rs_scalar_natural_form:
  "prove_assemble pk pi_a pib1 pi_b pi_c pih r s =
     \<lparr>proof_A = pi_a + vk_alpha1 pk
        + mulByScalar (vk_delta1 pk) (fr_bytes (\<lambda>_. r)) sizeof_FrElement,
      proof_B = pi_b + vk_beta2 pk
        + mulByScalar (vk_delta2 pk) (fr_bytes (\<lambda>_. s)) sizeof_FrElement,
      proof_C = pi_c + pih
        + mulByScalar (pi_a + vk_alpha1 pk
            + mulByScalar (vk_delta1 pk) (fr_bytes (\<lambda>_. r)) sizeof_FrElement)
            (fr_bytes (\<lambda>_. s)) sizeof_FrElement
        + mulByScalar (pib1 + vk_beta1 pk
            + mulByScalar (vk_delta1 pk) (fr_bytes (\<lambda>_. s)) sizeof_FrElement)
            (fr_bytes (\<lambda>_. r)) sizeof_FrElement
        - mulByScalar (vk_delta1 pk) (fr_bytes (\<lambda>_. fr_toMontgomery (fr_mul r s)))
            sizeof_FrElement\<rparr> \<and>
   read_le (fr_bytes (\<lambda>_. fr_toMontgomery (fr_mul r s))) 0 sizeof_FrElement =
     (fr_val r * fr_val s) mod Fr_q \<and>
   read_le (fr_bytes (\<lambda>_. fr_mul r s)) 0 sizeof_FrElement =
     (fr_val r * fr_val s * Fr_Rinv) mod Fr_q \<and>
   read_le (fr_bytes (\<lambda>_. r)) 0 sizeof_FrElement = fr_val r \<and>
   read_le (fr_bytes (\<lambda>_. s)) 0 sizeof_FrElement = fr_val s \<and>
   mulByScalar (vk_delta1 pk) (fr_bytes (\<lambda>_. fr_toMontgomery (fr_mul r s))) sizeof_FrElement =
     g_scale ((fr_val r * fr_val s) mod Fr_q) (vk_delta1 pk)"
proof -
  have "read_le (fr_bytes (\<lambda>_. fr_toMontgomery (fr_mul r s))) 0 sizeof_FrElement =
      (fr_val r * fr_val s) mod Fr_q"
    using fr_val_rs [of r s] by (simp add: read_le_element prove_rs_def)
  then show ?thesis
    by (simp add: prove_assemble_def Let_def prove_rs_def read_le_element fr_val_mul
        mulByScalar_rs)
qed

subsection \<open>The rejection sampling of the blinding scalars\<close>

lemma fr_modulus_val: "fr_val fr_modulus = Fr_q"
  by (simp add: fr_modulus_def Fr_q_def)

lemma fr_val_less_iff:
  "fr_val (Limbs a0 a1 a2 a3) < fr_val (Limbs b0 b1 b2 b3) \<longleftrightarrow>
     a3 < b3 \<or> a3 = b3 \<and> (a2 < b2 \<or> a2 = b2 \<and> (a1 < b1 \<or> a1 = b1 \<and> a0 < b0))"
proof -
  note b = unat64_less [of a0] unat64_less [of a1] unat64_less [of a2]
    unat64_less [of b0] unat64_less [of b1] unat64_less [of b2]
  have e: "\<And>u w :: 64 word. (u = w) = (unat u = unat w)" by (simp add: word_unat_eq_iff)
  have l: "\<And>u w :: 64 word. (u < w) = (unat u < unat w)" by (simp add: word_less_nat_alt)
  show ?thesis
    unfolding e l fr_val.simps using b by simp linarith
qed

lemma fr_val_inj: "fr_val x = fr_val y \<longleftrightarrow> x = y"
proof
  assume eq: "fr_val x = fr_val y"
  obtain a0 a1 a2 a3 where x: "x = Limbs a0 a1 a2 a3" by (cases x)
  obtain b0 b1 b2 b3 where y: "y = Limbs b0 b1 b2 b3" by (cases y)
  have "\<not> fr_val x < fr_val y" "\<not> fr_val y < fr_val x" using eq by simp_all
  then have "a3 = b3 \<and> a2 = b2 \<and> a1 = b1 \<and> a0 = b0"
    unfolding x y fr_val_less_iff by (meson linorder_neqE)
  then show "x = y" by (simp add: x y)
qed simp

lemma mpn_cmp_limbs:
  "mpn_cmp (limbs x) (limbs y) Fr_N64 =
     (if fr_val x = fr_val y then 0 else if fr_val y < fr_val x then 1 else - 1)"
proof -
  obtain a0 a1 a2 a3 where x: "x = Limbs a0 a1 a2 a3" by (cases x)
  obtain b0 b1 b2 b3 where y: "y = Limbs b0 b1 b2 b3" by (cases y)
  have m: "mpn_cmp (limbs x) (limbs y) Fr_N64 =
      (if a3 = b3 then if a2 = b2 then if a1 = b1 then if a0 = b0 then 0
           else if b0 < a0 then 1 else - 1
         else if b1 < a1 then 1 else - 1
        else if b2 < a2 then 1 else - 1
       else if b3 < a3 then 1 else - 1)"
    by (simp add: x y Fr_N64_def numeral_eq_Suc)
  show ?thesis
    unfolding m fr_val_inj unfolding x y fr_val_less_iff by auto
qed

lemma cmp_modulus:
  "(0 \<le> mpn_cmp (limbs r) (limbs fr_modulus) Fr_N64) = (Fr_q \<le> fr_val r)"
  by (auto simp: mpn_cmp_limbs fr_modulus_val)

lemma sample_scalar_step:
  "sample_scalar rng k =
     (if Fr_q \<le> fr_val (mask_top (rng k)) then sample_scalar rng (Suc k)
      else Some (mask_top (rng k), Suc k))"
  by (subst sample_scalar.simps) (simp only: Let_def cmp_modulus)

lemma sample_scalar_skip:
  "(\<forall>j. k \<le> j \<and> j < k + d \<longrightarrow> Fr_q \<le> fr_val (mask_top (rng j))) \<Longrightarrow>
     sample_scalar rng k = sample_scalar rng (k + d)"
proof (induction d arbitrary: k)
  case 0
  then show ?case by simp
next
  case (Suc d)
  have "Fr_q \<le> fr_val (mask_top (rng k))" using Suc.prems by simp
  then have "sample_scalar rng k = sample_scalar rng (Suc k)"
    by (subst sample_scalar_step) (simp only: if_True)
  also have "\<dots> = sample_scalar rng (Suc k + d)"
    by (rule Suc.IH) (use Suc.prems in simp)
  finally show ?case by simp
qed

lemma sample_scalar_SomeD:
  assumes "sample_scalar rng k = Some y"
  shows "k < snd y \<and> fst y = mask_top (rng (snd y - 1)) \<and> fr_val (fst y) < Fr_q \<and>
         (\<forall>j. k \<le> j \<and> j < snd y - 1 \<longrightarrow> Fr_q \<le> fr_val (mask_top (rng j)))"
proof (rule sample_scalar.raw_induct [where P = "\<lambda>rng k y.
         k < snd y \<and> fst y = mask_top (rng (snd y - 1)) \<and> fr_val (fst y) < Fr_q \<and>
         (\<forall>j. k \<le> j \<and> j < snd y - 1 \<longrightarrow> Fr_q \<le> fr_val (mask_top (rng j)))", OF _ assms])
  fix f :: "(nat \<Rightarrow> FrRawElement) \<Rightarrow> nat \<Rightarrow> (FrRawElement \<times> nat) option"
    and rng k y
  assume IH: "\<And>rng k y. f rng k = Some y \<Longrightarrow>
         k < snd y \<and> fst y = mask_top (rng (snd y - 1)) \<and> fr_val (fst y) < Fr_q \<and>
         (\<forall>j. k \<le> j \<and> j < snd y - 1 \<longrightarrow> Fr_q \<le> fr_val (mask_top (rng j)))"
    and hyp: "(let r = mask_top (rng k);
            cmp = mpn_cmp (limbs r) (limbs fr_modulus) Fr_N64
        in if 0 \<le> cmp then f rng (Suc k) else Some (r, Suc k)) = Some y"
  have body: "(if Fr_q \<le> fr_val (mask_top (rng k)) then f rng (Suc k)
      else Some (mask_top (rng k), Suc k)) = Some y"
    using hyp by (simp only: Let_def cmp_modulus)
  show "k < snd y \<and> fst y = mask_top (rng (snd y - 1)) \<and> fr_val (fst y) < Fr_q \<and>
         (\<forall>j. k \<le> j \<and> j < snd y - 1 \<longrightarrow> Fr_q \<le> fr_val (mask_top (rng j)))"
  proof (cases "Fr_q \<le> fr_val (mask_top (rng k))")
    case True
    then have "f rng (Suc k) = Some y"
      using body by simp
    from IH [OF this] have ih: "Suc k < snd y" "fst y = mask_top (rng (snd y - 1))"
      "fr_val (fst y) < Fr_q"
      "\<forall>j. Suc k \<le> j \<and> j < snd y - 1 \<longrightarrow> Fr_q \<le> fr_val (mask_top (rng j))"
      by blast+
    have "Fr_q \<le> fr_val (mask_top (rng j))" if "k \<le> j" "j < snd y - 1" for j
    proof (cases "j = k")
      case True
      then show ?thesis using \<open>Fr_q \<le> fr_val (mask_top (rng k))\<close> by simp
    next
      case False
      then have "Suc k \<le> j" using that by simp
      then show ?thesis using ih(4) that by simp
    qed
    then show ?thesis using ih by simp
  next
    case False
    then have "y = (mask_top (rng k), Suc k)"
      using body by simp
    with False show ?thesis by simp
  qed
qed

lemma sample_scalar_iff:
  "sample_scalar rng k = Some (r, k') \<longleftrightarrow>
     k < k' \<and> r = mask_top (rng (k' - 1)) \<and> fr_val r < Fr_q \<and>
     (\<forall>j. k \<le> j \<and> j < k' - 1 \<longrightarrow> Fr_q \<le> fr_val (mask_top (rng j)))"
proof
  assume "sample_scalar rng k = Some (r, k')"
  from sample_scalar_SomeD [OF this] show
    "k < k' \<and> r = mask_top (rng (k' - 1)) \<and> fr_val r < Fr_q \<and>
     (\<forall>j. k \<le> j \<and> j < k' - 1 \<longrightarrow> Fr_q \<le> fr_val (mask_top (rng j)))"
    unfolding fst_conv snd_conv .
next
  assume a: "k < k' \<and> r = mask_top (rng (k' - 1)) \<and> fr_val r < Fr_q \<and>
     (\<forall>j. k \<le> j \<and> j < k' - 1 \<longrightarrow> Fr_q \<le> fr_val (mask_top (rng j)))"
  define d where "d = k' - 1 - k"
  have k': "k' - 1 = k + d" "k' = Suc (k + d)" using a by (simp_all add: d_def)
  have "r = mask_top (rng (k' - 1))" using a by blast
  then have r: "r = mask_top (rng (k + d))" unfolding k'(1) .
  have "fr_val r < Fr_q" using a by blast
  then have acc: "\<not> Fr_q \<le> fr_val (mask_top (rng (k + d)))" unfolding r by simp
  have "\<forall>j. k \<le> j \<and> j < k' - 1 \<longrightarrow> Fr_q \<le> fr_val (mask_top (rng j))"
    using a by blast
  then have rej: "\<forall>j. k \<le> j \<and> j < k + d \<longrightarrow> Fr_q \<le> fr_val (mask_top (rng j))"
    unfolding k'(1) .
  have "sample_scalar rng k = sample_scalar rng (k + d)"
    by (rule sample_scalar_skip [OF rej])
  also have "\<dots> = Some (r, k')"
    by (subst sample_scalar_step) (simp add: acc r k'(2))
  finally show "sample_scalar rng k = Some (r, k')" .
qed


lemma top_mask_62: "(0x3FFFFFFFFFFFFFFF :: 64 word) = mask 62"
  by (simp add: mask_eq_exp_minus_1)

lemma unat_and_top_mask: "unat (w AND (0x3FFFFFFFFFFFFFFF :: 64 word)) = unat w mod 2 ^ 62"
proof -
  have "w AND mask 62 = take_bit 62 w" by (simp add: take_bit_eq_mask)
  then have "unat (w AND mask 62) = take_bit 62 (unat w)"
    by (simp add: unsigned_take_bit_eq)
  then show ?thesis by (simp add: take_bit_eq_mod top_mask_62)
qed

lemma fr_val_mask_top: "fr_val (mask_top d) = fr_val d mod 2 ^ 254"
proof (cases d)
  case (Limbs a0 a1 a2 a3)
  define low where "low = unat a0 + 2 ^ 64 * unat a1 + 2 ^ 128 * unat a2"
  have low: "low < 2 ^ 192"
    using unat64_less [of a0] unat64_less [of a1] unat64_less [of a2] by (simp add: low_def)
  have "(low + 2 ^ 192 * unat a3) mod (2 ^ 192 * 2 ^ 62) =
      2 ^ 192 * ((low + 2 ^ 192 * unat a3) div 2 ^ 192 mod 2 ^ 62)
        + (low + 2 ^ 192 * unat a3) mod 2 ^ 192"
    by (rule mod_mult2_eq)
  also have "(low + 2 ^ 192 * unat a3) div 2 ^ 192 = unat a3" using low by simp
  also have "(low + 2 ^ 192 * unat a3) mod 2 ^ 192 = low" using low by simp
  finally have "(low + 2 ^ 192 * unat a3) mod 2 ^ 254 = low + 2 ^ 192 * (unat a3 mod 2 ^ 62)"
    by simp
  then show ?thesis
    by (simp add: Limbs mask_top_def unat_and_top_mask low_def)
qed

text \<open>
  Claim C4. Each blinding scalar comes from the rejection loop. The loop returns \<open>r\<close>
  after the draws \<open>k\<close> to \<open>k' - 1\<close> exactly when \<open>r\<close> is the last of them with the two top
  bits of its highest limb cleared (limb 3 and \<open>0x3FFFFFFFFFFFFFFF\<close>, the other limbs as
  drawn), the value of that candidate, which is the drawn value modulo \<open>2\<^sup>2\<^sup>5\<^sup>4\<close>, is
  strictly below the modulus \<open>q\<close>, and the candidate of every earlier draw is not; so an
  accepted scalar is below \<open>q\<close>, and the loop returns as soon as such a draw exists.
\<close>

theorem sample_scalar_rejection:
  "(sample_scalar rng k = Some (r, k') \<longleftrightarrow>
      k < k' \<and>
      r = Limbs (v0 (rng (k' - 1))) (v1 (rng (k' - 1))) (v2 (rng (k' - 1)))
            (v3 (rng (k' - 1)) AND 0x3FFFFFFFFFFFFFFF) \<and>
      fr_val (rng (k' - 1)) mod 2 ^ 254 < Fr_q \<and>
      (\<forall>j. k \<le> j \<and> j < k' - 1 \<longrightarrow> Fr_q \<le> fr_val (rng j) mod 2 ^ 254)) \<and>
   (sample_scalar rng k = Some (r, k') \<longrightarrow>
      fr_val r = fr_val (rng (k' - 1)) mod 2 ^ 254 \<and> fr_val r < Fr_q)"
proof -
  have m: "mask_top d = Limbs (v0 d) (v1 d) (v2 d) (v3 d AND 0x3FFFFFFFFFFFFFFF)" for d
    by (simp add: mask_top_def)
  have v: "fr_val (Limbs (v0 d) (v1 d) (v2 d) (v3 d AND 0x3FFFFFFFFFFFFFFF)) = fr_val d mod 2 ^ 254"
    for d
    using fr_val_mask_top [of d] by (simp only: m)
  have a: "fr_val r < Fr_q \<longleftrightarrow> fr_val (mask_top (rng (k' - 1))) < Fr_q"
    if "r = mask_top (rng (k' - 1))"
    using that by simp
  show ?thesis
    unfolding m [symmetric] fr_val_mask_top [symmetric]
    using sample_scalar_iff [of rng k r k'] a by blast
qed

theorem sample_scalar_rejection_witness:
  "sample_scalar rng_example2 0 = Some (Limbs 5 0 0 0, 2) \<and>
   rng_example2 1 = Limbs 5 0 0 0xC000000000000000 \<and>
   fr_val (Limbs 5 0 0 0) = fr_val (rng_example2 1) mod 2 ^ 254 \<and>
   fr_val (Limbs 5 0 0 0) < Fr_q"
  using sample_scalar_rejection [of rng_example2 0 "Limbs 5 0 0 0" 2]
  by (simp add: rng_example2_def Fr_q_def)

subsection \<open>Initialisation of the three vectors\<close>

lemma fold_update_upt:
  "n \<le> length xs \<Longrightarrow>
     fold (\<lambda>i xs. xs[i := g i (xs ! i)]) [0..<n] xs = map (\<lambda>i. g i (xs ! i)) [0..<n] @ drop n xs"
proof (induction n)
  case 0
  then show ?case by simp
next
  case (Suc n)
  then have n: "n < length xs" by simp
  let ?ys = "map (\<lambda>i. g i (xs ! i)) [0..<n]"
  have "fold (\<lambda>i xs. xs[i := g i (xs ! i)]) [0..<Suc n] xs =
      (?ys @ drop n xs)[n := g n ((?ys @ drop n xs) ! n)]"
    using Suc by simp
  also have "(?ys @ drop n xs) ! n = xs ! n"
    using n by (simp add: nth_append)
  also have "(?ys @ drop n xs)[n := g n (xs ! n)] = ?ys @ (drop n xs)[0 := g n (xs ! n)]"
    by (simp add: list_update_append)
  also have "(drop n xs)[0 := g n (xs ! n)] = g n (xs ! n) # drop (Suc n) xs"
    using n by (simp add: Cons_nth_drop_Suc [symmetric])
  finally show ?case by simp
qed

lemma fold_update_all:
  "length xs = n \<Longrightarrow>
     fold (\<lambda>i xs. xs[i := g i (xs ! i)]) [0..<n] xs = map (\<lambda>i. g i (xs ! i)) [0..<n]"
  using fold_update_upt [of n xs g] by simp

lemma fold_pair_split:
  "fold (\<lambda>i (a, b). (a[i := z], b[i := z])) is (a, b) =
     (fold (\<lambda>i a. a[i := z]) is a, fold (\<lambda>i b. b[i := z]) is b)"
  by (induction "is" arbitrary: a b) simp_all

lemma fold_triple_split:
  "fold (\<lambda>i (a, b, c). (a[i := z], b[i := z], c[i := z])) is (a, b, c) =
     (fold (\<lambda>i a. a[i := z]) is a, fold (\<lambda>i b. b[i := z]) is b, fold (\<lambda>i c. c[i := z]) is c)"
  by (induction "is" arbitrary: a b c) simp_all

lemma fold_zero: "length xs = n \<Longrightarrow> fold (\<lambda>i a. a[i := z]) [0..<n] xs = replicate n z"
  using fold_update_all [of xs n "\<lambda>_ _. z"] by (simp add: map_replicate_const)

lemma length_new_array: "length (new_array junk n) = n"
  by (simp add: new_array_def)

lemma prove_init_eq:
  "prove_init dsz mem =
     (replicate (unat dsz) fr_zero, replicate (unat dsz) fr_zero, map (mem 2) [0..<unat dsz])"
  by (simp add: prove_init_def prove_alloc_def fold_pair_split fold_zero length_new_array)
     (simp add: new_array_def)

lemma spec_init_eq:
  "spec_init dsz mem =
     (replicate (unat dsz) fr_zero, replicate (unat dsz) fr_zero, replicate (unat dsz) fr_zero)"
  by (simp add: spec_init_def prove_alloc_def fold_triple_split fold_zero length_new_array)

lemma calc_c_eq:
  "length c = n \<Longrightarrow> calc_c n (a, b, c) = (a, b, map (\<lambda>i. fr_mul (a ! i) (b ! i)) [0..<n])"
  using fold_update_all [of c n "\<lambda>i _. fr_mul (a ! i) (b ! i)"] by (simp add: calc_c_def)

lemma process_coefs_length:
  "process_coefs wtns cfs (a, b) = Some (a', b') \<Longrightarrow> length a' = length a \<and> length b' = length b"
proof (induction cfs arbitrary: a b)
  case Nil
  then show ?case by simp
next
  case (Cons cf cfs)
  then show ?case
    by (fastforce simp: Let_def split: if_splits)
qed

lemma prove_from_c_irrelevant:
  assumes "length c = unat (domainSize pk)" "length c' = unat (domainSize pk)"
  shows "prove_from pk wtns rng k (a, b, c) = prove_from pk wtns rng k (a, b, c')"
  using assms by (simp add: prove_from_def prove_quotient_def calc_c_eq split: option.splits)

text \<open>
  Claim C10. \<^const>\<open>prove\<close> clears only \<open>a\<close> and \<open>b\<close>; \<^const>\<open>prove_zero_init_c\<close>
  is the same routine with all three vectors cleared. Both return the same result on every
  input, whatever the fresh allocation of \<open>c\<close> holds: \<^const>\<open>calc_c\<close> writes every
  \<open>c[i]\<close> before anything reads it.
\<close>

theorem uninitialised_c_unobservable:
  "prove pk wtns mem rng k = prove_zero_init_c pk wtns mem rng k"
proof (cases "int_index_ok pk")
  case True
  have "prove_from pk wtns rng k (prove_init (domainSize pk) mem) =
      prove_from pk wtns rng k (spec_init (domainSize pk) mem)"
    unfolding prove_init_eq spec_init_eq
    by (rule prove_from_c_irrelevant) simp_all
  then show ?thesis by (simp add: prove_def prove_zero_init_c_def)
next
  case False
  then show ?thesis by (simp add: prove_def prove_zero_init_c_def)
qed

text \<open>
  Claim C6, as amended. The three vectors are allocated with \<open>domainSize\<close> elements each;
  the loop before the scatter clears \<open>a\<close> and \<open>b\<close> only, and \<open>c\<close> keeps what its
  allocation held until \<^const>\<open>calc_c\<close> overwrites each of its elements with
  \<open>a[i] \<cdot> b[i]\<close>.
\<close>

theorem prove_init_leaves_c:
  "prove_init dsz mem =
     (replicate (unat dsz) fr_zero, replicate (unat dsz) fr_zero, map (mem 2) [0..<unat dsz]) \<and>
   calc_c (unat dsz) (a, b, map (mem 2) [0..<unat dsz]) =
     (a, b, map (\<lambda>i. fr_mul (a ! i) (b ! i)) [0..<unat dsz])"
  by (simp add: prove_init_eq calc_c_eq)

text \<open>
  Claim C6 as stated fails: with an allocation that holds the element 7, \<open>c\<close> is not
  zero after the initialisation loop.
\<close>

theorem prove_init_zeroes_c_counterexample:
  "snd (snd (prove_init 1 (\<lambda>k i. Limbs 7 0 0 0))) \<noteq> replicate 1 fr_zero"
  by (simp add: prove_init_eq fr_zero_def fr_of_nat_def)

subsection \<open>The coefficient scatter\<close>

lemma fr_add_right_commute: "fr_add (fr_add x u) v = fr_add (fr_add x v) u"
proof -
  have "fr_add (fr_add x u) v = fr_of_nat ((fr_val x + fr_val u + fr_val v) mod Fr_q)" for x u v
    by (simp add: fr_add_def fr_val_of_nat_mod mod_add_left_eq)
  then show ?thesis by (simp add: add.commute add.left_commute)
qed

lemma serial_sum_perm:
  assumes "mset cfs' = mset cfs"
  shows "serial_sum wtns cfs' poly_a j x0 = serial_sum wtns cfs poly_a j x0"
proof -
  have "mset (filter (targets poly_a j) cfs') = mset (filter (targets poly_a j) cfs)"
    using assms by simp
  then have "fold (\<lambda>cf acc. fr_add acc (coef_aux wtns cf)) (filter (targets poly_a j) cfs') =
      fold (\<lambda>cf acc. fr_add acc (coef_aux wtns cf)) (filter (targets poly_a j) cfs)"
    by (intro fold_multiset_equiv) (auto simp: fun_eq_iff fr_add_right_commute)
  then show ?thesis by (simp add: serial_sum_def)
qed

lemma serial_sum_Cons:
  "serial_sum wtns (cf # cfs) poly_a j x0 =
     serial_sum wtns cfs poly_a j (if targets poly_a j cf then fr_add x0 (coef_aux wtns cf) else x0)"
  by (simp add: serial_sum_def)

lemma process_coefs_closed:
  "length a = n \<Longrightarrow> length b = n \<Longrightarrow>
   process_coefs wtns cfs (a, b) =
     (if \<forall>cf \<in> set cfs. unat (coef_c cf) < n
      then Some (map (\<lambda>j. serial_sum wtns cfs True j (a ! j)) [0..<n],
                 map (\<lambda>j. serial_sum wtns cfs False j (b ! j)) [0..<n])
      else None)"
proof (induction cfs arbitrary: a b)
  case Nil
  have "map ((!) a) [0..<length a] = a" "map ((!) b) [0..<length b] = b"
    by (rule map_nth)+
  with Nil show ?case by (simp add: serial_sum_def)
next
  case (Cons cf cfs)
  let ?i = "unat (coef_c cf)"
  let ?aux = "coef_aux wtns cf"
  show ?case
  proof (cases "?i < n")
    case False
    then show ?thesis using Cons.prems by (simp add: Let_def)
  next
    case True
    show ?thesis
    proof (cases "coef_m cf = 0")
      case m: True
      let ?a = "a[?i := fr_add (a ! ?i) ?aux]"
      have 1: "process_coefs wtns (cf # cfs) (a, b) = process_coefs wtns cfs (?a, b)"
        using True m Cons.prems by (simp add: Let_def coef_aux_def)
      have 2: "serial_sum wtns (cf # cfs) True j (a ! j) = serial_sum wtns cfs True j (?a ! j)"
        if "j < n" for j
        using that True m Cons.prems by (auto simp: serial_sum_Cons targets_def)
      have 3: "serial_sum wtns (cf # cfs) False j (b ! j) = serial_sum wtns cfs False j (b ! j)"
        for j
        using m by (simp add: serial_sum_Cons targets_def)
      show ?thesis
        unfolding 1 using Cons.prems True
        by (subst Cons.IH) (simp_all add: 2 3)
    next
      case m: False
      let ?b = "b[?i := fr_add (b ! ?i) ?aux]"
      have 1: "process_coefs wtns (cf # cfs) (a, b) = process_coefs wtns cfs (a, ?b)"
        using True m Cons.prems by (simp add: Let_def coef_aux_def)
      have 2: "serial_sum wtns (cf # cfs) False j (b ! j) = serial_sum wtns cfs False j (?b ! j)"
        if "j < n" for j
        using that True m Cons.prems by (auto simp: serial_sum_Cons targets_def)
      have 3: "serial_sum wtns (cf # cfs) True j (a ! j) = serial_sum wtns cfs True j (a ! j)"
        for j
        using m by (simp add: serial_sum_Cons targets_def)
      show ?thesis
        unfolding 1 using Cons.prems True
        by (subst Cons.IH) (simp_all add: 2 3)
    qed
  qed
qed

text \<open>
  Claim C5. Processing the coefficient records in any order (a permutation \<open>cfs'\<close> of
  the stream \<open>cfs\<close>) gives the same vectors \<open>a\<close> and \<open>b\<close> as the stream order; and when
  every record indexes inside the vectors, the scatter returns, with bucket \<open>j\<close> of \<open>a\<close>
  (of \<open>b\<close>) holding its initial value plus the serial sum of \<open>wtns[s] \<cdot> coef\<close> over the
  records with \<open>m = 0\<close> (\<open>m \<noteq> 0\<close>) and \<open>c = j\<close>, whatever the order.
\<close>

theorem scatter_order_independent:
  assumes "mset cfs' = mset cfs" and "length a0 = n" and "length b0 = n"
  shows "process_coefs wtns cfs' (a0, b0) = process_coefs wtns cfs (a0, b0) \<and>
    ((\<forall>cf \<in> set cfs. unat (coef_c cf) < n) \<longrightarrow>
       process_coefs wtns cfs' (a0, b0) =
         Some (map (\<lambda>j. serial_sum wtns cfs True j (a0 ! j)) [0..<n],
               map (\<lambda>j. serial_sum wtns cfs False j (b0 ! j)) [0..<n]))"
proof -
  have s: "set cfs' = set cfs" using assms(1) by (rule mset_eq_setD)
  have "process_coefs wtns cfs' (a0, b0) = process_coefs wtns cfs (a0, b0)"
    using assms(2,3)
    by (simp add: process_coefs_closed [where n = n] s serial_sum_perm [OF assms(1)])
  moreover have "process_coefs wtns cfs (a0, b0) =
         Some (map (\<lambda>j. serial_sum wtns cfs True j (a0 ! j)) [0..<n],
               map (\<lambda>j. serial_sum wtns cfs False j (b0 ! j)) [0..<n])"
    if "\<forall>cf \<in> set cfs. unat (coef_c cf) < n"
    using that assms(2,3) by (simp add: process_coefs_closed [where n = n])
  ultimately show ?thesis by simp
qed

subsection \<open>The witness multi-exponentiations\<close>

lemma unat_sW: "unat sW = sizeof_FrElement"
  by (simp add: sW_def sizeof_FrElement_def)

lemma msm_fr_bytes_offset:
  "multiMulByScalar bases (ptr_add (fr_bytes p) (sizeof_FrElement * m)) sizeof_FrElement n =
     (\<Sum>i\<leftarrow>[0..<n]. g_scale (fr_val (p (m + i))) (bases i))"
proof -
  have "read_le (ptr_add (fr_bytes p) (sizeof_FrElement * m)) (i * sizeof_FrElement) sizeof_FrElement
      = fr_val (p (m + i))" for i
    using read_le_fr_bytes [of p "m + i"]
    by (simp add: read_le_ptr_add algebra_simps)
  then show ?thesis by (simp add: multiMulByScalar_def)
qed

lemma msm_fr_bytes:
  "multiMulByScalar bases (fr_bytes p) sizeof_FrElement n =
     (\<Sum>i\<leftarrow>[0..<n]. g_scale (fr_val (p i)) (bases i))"
proof -
  have "ptr_add (fr_bytes p) (sizeof_FrElement * 0) = fr_bytes p"
    by (simp add: ptr_add_def)
  with msm_fr_bytes_offset [of bases p 0 n] show ?thesis by simp
qed

lemma prove_pi_a_sum:
  "prove_pi_a pk wtns = (\<Sum>i\<leftarrow>[0..<unat (nVars pk)]. g_scale (fr_val (wtns i)) (pointsA pk i))"
  by (simp add: prove_pi_a_def unat_sW msm_fr_bytes)

lemma prove_pib1_sum:
  "prove_pib1 pk wtns = (\<Sum>i\<leftarrow>[0..<unat (nVars pk)]. g_scale (fr_val (wtns i)) (pointsB1 pk i))"
  by (simp add: prove_pib1_def unat_sW msm_fr_bytes)

lemma prove_pi_b_sum:
  "prove_pi_b pk wtns = (\<Sum>i\<leftarrow>[0..<unat (nVars pk)]. g_scale (fr_val (wtns i)) (pointsB2 pk i))"
  by (simp add: prove_pi_b_def unat_sW msm_fr_bytes)

lemma prove_pi_c_offset:
  "unat ((nPublic pk + 1) * sW) = sizeof_FrElement * ((unat (nPublic pk) + 1) mod 2 ^ 27)"
proof -
  have s: "unat sW = 32" by (simp add: sW_def)
  have "unat ((nPublic pk + 1) * sW) = (unat (nPublic pk + 1) * unat sW) mod 2 ^ 32"
    by (simp only: unat_word_ariths(2) len_of_numeral_defs) simp
  also have "unat (nPublic pk + 1) = (unat (nPublic pk) + 1) mod 2 ^ 32"
    by (simp only: unat_word_ariths(1) len_of_numeral_defs) simp
  also have "((unat (nPublic pk) + 1) mod 2 ^ 32 * unat sW) mod 2 ^ 32 =
      ((unat (nPublic pk) + 1) * 32) mod (32 * 2 ^ 27)"
    unfolding s by (simp only: mod_mult_left_eq) simp
  also have "\<dots> = 32 * ((unat (nPublic pk) + 1) mod 2 ^ 27)"
    by (simp only: mult.commute [of _ 32] mult_mod_right)
  finally show ?thesis by (simp add: sizeof_FrElement_def)
qed

lemma prove_pi_c_general:
  "prove_pi_c pk wtns =
     (\<Sum>i\<leftarrow>[0..<unat (nVars pk - nPublic pk - 1)].
        g_scale (fr_val (wtns ((unat (nPublic pk) + 1) mod 2 ^ 27 + i))) (pointsC pk i))"
  by (simp only: prove_pi_c_def prove_pi_c_offset unat_sW msm_fr_bytes_offset)

lemma prove_pi_c_in_range:
  assumes "unat (nPublic pk) + 1 < 2 ^ 27" and "nPublic pk < nVars pk"
  shows "prove_pi_c pk wtns =
     (\<Sum>i\<leftarrow>[0..<unat (nVars pk) - unat (nPublic pk) - 1].
        g_scale (fr_val (wtns (unat (nPublic pk) + 1 + i))) (pointsC pk i))"
proof -
  have "unat (nPublic pk) < unat (nVars pk)" using assms(2) by (simp add: word_less_nat_alt)
  then have "unat (nVars pk - nPublic pk - 1) = unat (nVars pk) - unat (nPublic pk) - 1"
    by (simp add: unat_sub word_le_nat_alt unat_gt_0 word_less_nat_alt)
  then show ?thesis using assms(1) by (simp add: prove_pi_c_general)
qed

text \<open>
  Claim C3. The three full products read all \<open>nVars\<close> witness scalars, 32 bytes each
  (\<open>prove_pi_a_sum\<close>, \<open>prove_pib1_sum\<close>, \<open>prove_pi_b_sum\<close>), and the fourth reads
  \<^verbatim>\<open>wtns[nPublic + 1]\<close> onwards while \<open>nPublic + 1\<close> is below \<open>2\<^sup>2\<^sup>7\<close>
  (\<open>prove_pi_c_in_range\<close>). From there on the byte offset \<^verbatim>\<open>(nPublic + 1) * sW\<close> wraps
  around in its 32 bits: with \<open>2\<^sup>2\<^sup>7 - 1\<close> public inputs and \<open>2\<^sup>2\<^sup>7 + 1\<close> variables the one
  scalar of the fourth product is \<^verbatim>\<open>wtns[0]\<close>, of the public prefix, where the claim has
  \<^verbatim>\<open>wtns[134217728]\<close>.
\<close>

theorem prove_pi_c_offset_wraps:
  "prove_pi_c (pk\<lparr>nVars := 134217729, nPublic := 134217727\<rparr>) wtns =
     g_scale (fr_val (wtns 0)) (pointsC pk 0)"
  by (simp add: prove_pi_c_general)

subsection \<open>The coset pipeline, the assembly and the result of prove\<close>

lemma coset_chain_eq:
  assumes "length (ifft F x n) = n"
  shows "coset_chain F n (log2 F n) x = spec_coset F n x"
  using fold_update_all [OF assms, of "\<lambda>i v. fr_mul v (root F (log2 F n + 1) i)"]
  by (simp add: coset_chain_def spec_coset_def)

lemma calc_abc_eq:
  "length a = n \<Longrightarrow>
     calc_abc n (a, b, c) =
       map (\<lambda>i. fr_fromMontgomery (fr_sub (fr_mul (a ! i) (b ! i)) (c ! i))) [0..<n]"
  using fold_update_all [of a n "\<lambda>i v. fr_fromMontgomery (fr_sub (fr_mul v (b ! i)) (c ! i))"]
  by (simp add: calc_abc_def)

lemma prove_pih_sum:
  "prove_pih pk h = (\<Sum>i\<leftarrow>[0..<unat (domainSize pk)]. g_scale (fr_val (h ! i)) (pointsH pk i))"
  by (simp add: prove_pih_def msm_fr_bytes)

lemma g_scale_int: "g_scale n (P :: int) = int n * P"
  by (induction n) (simp_all add: algebra_simps)

lemma prove_assemble_eq:
  "prove_assemble pk pi_a pib1 pi_b pi_c pih r s =
     \<lparr>proof_A = pi_a + vk_alpha1 pk + g_scale (fr_val r) (vk_delta1 pk),
      proof_B = pi_b + vk_beta2 pk + g_scale (fr_val s) (vk_delta2 pk),
      proof_C = pi_c + pih
        + g_scale (fr_val s) (pi_a + vk_alpha1 pk + g_scale (fr_val r) (vk_delta1 pk))
        + g_scale (fr_val r) (pib1 + vk_beta1 pk + g_scale (fr_val s) (vk_delta1 pk))
        - g_scale ((fr_val r * fr_val s) mod Fr_q) (vk_delta1 pk)\<rparr>"
  by (simp add: prove_assemble_def Let_def mulByScalar_element fr_val_rs)

lemma sample_scalar_accepts:
  assumes "sample_scalar rng k = Some (r, k')"
  shows "fr_val r < Fr_q"
  using sample_scalar_SomeD [OF assms] unfolding fst_conv snd_conv by blast

lemma sample_scalar_terminates:
  assumes "fr_val (mask_top (rng j)) < Fr_q" and "k \<le> j"
  shows "\<exists>r k'. sample_scalar rng k = Some (r, k')"
  using assms
proof (induction "j - k" arbitrary: k)
  case 0
  then have "k = j" by simp
  with 0 show ?case by (subst sample_scalar_step) simp
next
  case (Suc d)
  show ?case
  proof (cases "Fr_q \<le> fr_val (mask_top (rng k))")
    case True
    have "\<exists>r k'. sample_scalar rng (Suc k) = Some (r, k')"
      using Suc by (intro Suc.hyps(1)) simp_all
    then show ?thesis using True by (subst sample_scalar_step) simp
  next
    case False
    then show ?thesis by (subst sample_scalar_step) simp
  qed
qed

lemma prove_quotient_returns:
  assumes "\<forall>i<unat (nCoefs pk). unat (coef_c (coefs pk i)) < unat (domainSize pk)"
    and "length a = unat (domainSize pk)" and "length b = unat (domainSize pk)"
  shows "\<exists>pih. prove_quotient pk wtns (a, b, c) = Some pih"
  using assms
  by (simp add: prove_quotient_def process_coefs_closed [where n = "unat (domainSize pk)"] Let_def)

lemma prove_from_eq:
  assumes "prove_quotient pk wtns abc = Some pih"
    and "sample_scalar rng k = Some (r, k1)" and "sample_scalar rng k1 = Some (s, k2)"
  shows "prove_from pk wtns rng k abc =
     Some (prove_assemble pk (prove_pi_a pk wtns) (prove_pib1 pk wtns) (prove_pi_b pk wtns)
             (prove_pi_c pk wtns) pih r s)"
  using assms by (simp add: prove_from_def)

lemma prove_h_evals_eq:
  assumes "\<forall>x. length (ifft (fft_engine pk) x (unat (domainSize pk))) = length x"
    and "\<forall>x. length (fft (fft_engine pk) x (unat (domainSize pk))) = length x"
    and "length a = unat (domainSize pk)" and "length b = unat (domainSize pk)"
    and "length c = unat (domainSize pk)"
  shows "prove_h_evals pk (a, b, c) =
      spec_h_evals (fft_engine pk) (unat (domainSize pk)) (a, b, c)"
proof -
  let ?F = "fft_engine pk" and ?n = "unat (domainSize pk)"
  have ch: "coset_chain ?F ?n (log2 ?F ?n) x = spec_coset ?F ?n x" if "length x = ?n" for x
    using that assms(1) by (intro coset_chain_eq) simp
  have "length (spec_coset ?F ?n a) = ?n"
    using assms(2) by (simp add: spec_coset_def)
  then show ?thesis
    using assms(3-5) by (simp add: prove_h_evals_def spec_h_evals_def Let_def ch calc_abc_eq)
qed

lemma prove_quotient_eq:
  assumes "\<forall>x. length (ifft (fft_engine pk) x (unat (domainSize pk))) = length x"
    and "\<forall>x. length (fft (fft_engine pk) x (unat (domainSize pk))) = length x"
    and "process_coefs wtns (map (coefs pk) [0..<unat (nCoefs pk)]) (a0, b0) = Some (a, b)"
    and "length a0 = unat (domainSize pk)" and "length b0 = unat (domainSize pk)"
    and "length c0 = unat (domainSize pk)"
  shows "prove_quotient pk wtns (a0, b0, c0) =
      Some (spec_msm (pointsH pk)
        (spec_h_evals (fft_engine pk) (unat (domainSize pk))
           (a, b, map (\<lambda>i. fr_mul (a ! i) (b ! i)) [0..<unat (domainSize pk)]))
        (unat (domainSize pk)))"
proof -
  have l: "length a = unat (domainSize pk)" "length b = unat (domainSize pk)"
    using process_coefs_length [OF assms(3)] assms(4,5) by simp_all
  have h: "prove_h_evals pk (a, b, map (\<lambda>i. fr_mul (a ! i) (b ! i)) [0..<unat (domainSize pk)]) =
      spec_h_evals (fft_engine pk) (unat (domainSize pk))
        (a, b, map (\<lambda>i. fr_mul (a ! i) (b ! i)) [0..<unat (domainSize pk)])"
    by (rule prove_h_evals_eq [OF assms(1,2) l]) simp
  show ?thesis
    by (simp add: prove_quotient_def assms(3) calc_c_eq [OF assms(6)] h prove_pih_sum
        spec_msm_def)
qed

text \<open>
  Claim C2. With an FFT engine that works in place, and \<open>a\<close>, \<open>b\<close> the vectors that the
  scatter leaves, \<^verbatim>\<open>prove\<close> puts each of \<open>a\<close>, \<open>b\<close> and \<open>c\<close> (the pointwise products of
  \<open>a\<close> and \<open>b\<close>) through the inverse FFT, the multiplication of element \<open>i\<close> by
  \<^verbatim>\<open>root(log2(domainSize) + 1, i)\<close> and the FFT; element \<open>i\<close> of the vector it then
  builds is \<open>a[i] \<cdot> b[i] - c[i]\<close> of the three images, out of Montgomery form; \<open>pih\<close> is
  the sum of these \<open>domainSize\<close> scalars times the points of \<^verbatim>\<open>pointsH\<close>; and this \<open>pih\<close>
  is the one that the proof is assembled from.
\<close>

theorem coset_pipeline:
  assumes "\<forall>x. length (ifft (fft_engine pk) x (unat (domainSize pk))) = length x"
    and "\<forall>x. length (fft (fft_engine pk) x (unat (domainSize pk))) = length x"
    and "process_coefs wtns (map (coefs pk) [0..<unat (nCoefs pk)])
           (replicate (unat (domainSize pk)) fr_zero, replicate (unat (domainSize pk)) fr_zero) =
         Some (a, b)"
    and "c = map (\<lambda>i. fr_mul (a ! i) (b ! i)) [0..<unat (domainSize pk)]"
    and "int_index_ok pk"
    and "sample_scalar rng k = Some (r, k1)" and "sample_scalar rng k1 = Some (s, k2)"
  shows "prove_h_evals pk (a, b, c) =
      map (\<lambda>i. fr_fromMontgomery
            (fr_sub (fr_mul (spec_coset (fft_engine pk) (unat (domainSize pk)) a ! i)
                            (spec_coset (fft_engine pk) (unat (domainSize pk)) b ! i))
                    (spec_coset (fft_engine pk) (unat (domainSize pk)) c ! i)))
        [0..<unat (domainSize pk)] \<and>
    prove_quotient pk wtns (prove_init (domainSize pk) mem) =
      Some (spec_msm (pointsH pk)
        (spec_h_evals (fft_engine pk) (unat (domainSize pk)) (a, b, c)) (unat (domainSize pk))) \<and>
    prove pk wtns mem rng k =
      Some (prove_assemble pk (prove_pi_a pk wtns) (prove_pib1 pk wtns) (prove_pi_b pk wtns)
        (prove_pi_c pk wtns)
        (spec_msm (pointsH pk)
           (spec_h_evals (fft_engine pk) (unat (domainSize pk)) (a, b, c)) (unat (domainSize pk)))
        r s)"
proof -
  have l: "length a = unat (domainSize pk)" "length b = unat (domainSize pk)"
    using process_coefs_length [OF assms(3)] by simp_all
  have lc: "length c = unat (domainSize pk)" by (simp add: assms(4))
  have h: "prove_h_evals pk (a, b, c) =
      spec_h_evals (fft_engine pk) (unat (domainSize pk)) (a, b, c)"
    by (rule prove_h_evals_eq [OF assms(1,2) l lc])
  have q: "prove_quotient pk wtns (prove_init (domainSize pk) mem) =
      Some (spec_msm (pointsH pk)
        (spec_h_evals (fft_engine pk) (unat (domainSize pk)) (a, b, c)) (unat (domainSize pk)))"
    unfolding prove_init_eq assms(4)
    by (rule prove_quotient_eq [OF assms(1,2,3)]) simp_all
  have p: "prove pk wtns mem rng k =
      Some (prove_assemble pk (prove_pi_a pk wtns) (prove_pib1 pk wtns) (prove_pi_b pk wtns)
        (prove_pi_c pk wtns)
        (spec_msm (pointsH pk)
           (spec_h_evals (fft_engine pk) (unat (domainSize pk)) (a, b, c)) (unat (domainSize pk)))
        r s)"
    using assms(5) by (simp add: prove_def prove_from_eq [OF q assms(6,7)])
  from h q p show ?thesis by (simp add: spec_h_evals_def)
qed

text \<open>
  Claim C1. With \<open>pih\<close> the product over \<^verbatim>\<open>pointsH\<close> and \<open>r\<close>, \<open>s\<close> the two accepted
  scalars, \<^verbatim>\<open>prove\<close> returns \<open>A = pi_a + vk_alpha1 + r \<cdot> vk_delta1\<close>,
  \<open>B = pi_b + vk_beta2 + s \<cdot> vk_delta2\<close> and
  \<open>C = pi_c + pih + s \<cdot> A + r \<cdot> (pib1 + vk_beta1 + s \<cdot> vk_delta1) - (r \<cdot> s mod q) \<cdot> vk_delta1\<close>,
  the four \<open>pi\<close> being the products of the first phase and \<open>A\<close> in \<open>s \<cdot> A\<close> the final one;
  and \<open>r\<close>, \<open>s\<close> are below \<open>q\<close>.
\<close>

theorem prove_assembly:
  assumes "prove_quotient pk wtns (prove_init (domainSize pk) mem) = Some pih"
    and "sample_scalar rng k = Some (r, k1)" and "sample_scalar rng k1 = Some (s, k2)"
    and "int_index_ok pk"
  shows "prove pk wtns mem rng k =
     Some \<lparr>proof_A = prove_pi_a pk wtns + vk_alpha1 pk + g_scale (fr_val r) (vk_delta1 pk),
           proof_B = prove_pi_b pk wtns + vk_beta2 pk + g_scale (fr_val s) (vk_delta2 pk),
           proof_C = prove_pi_c pk wtns + pih
             + g_scale (fr_val s)
                 (prove_pi_a pk wtns + vk_alpha1 pk + g_scale (fr_val r) (vk_delta1 pk))
             + g_scale (fr_val r)
                 (prove_pib1 pk wtns + vk_beta1 pk + g_scale (fr_val s) (vk_delta1 pk))
             - g_scale ((fr_val r * fr_val s) mod Fr_q) (vk_delta1 pk)\<rparr> \<and>
     fr_val r < Fr_q \<and> fr_val s < Fr_q"
  using assms(4)
  by (simp add: prove_def prove_from_eq [OF assms(1-3)] prove_assemble_eq
      sample_scalar_accepts [OF assms(2)] sample_scalar_accepts [OF assms(3)])

lemma process_coefs_cong:
  "(\<forall>cf \<in> set cfs. wtns (unat (coef_s cf)) = wtns' (unat (coef_s cf))) \<Longrightarrow>
     process_coefs wtns cfs ab = process_coefs wtns' cfs ab"
proof (induction cfs arbitrary: ab)
  case Nil
  then show ?case by simp
next
  case (Cons cf cfs)
  obtain a b where ab: "ab = (a, b)" by (cases ab)
  from Cons show ?case by (simp add: ab Let_def)
qed

lemma msm_sum_cong:
  "(\<forall>i<n. p (m + i) = p' (m + i)) \<Longrightarrow>
     (\<Sum>i\<leftarrow>[0..<n]. g_scale (fr_val (p (m + i))) (bases i)) =
     (\<Sum>i\<leftarrow>[0..<n]. g_scale (fr_val (p' (m + i))) (bases i))"
  by (rule arg_cong [where f = sum_list], rule map_cong) simp_all

lemma prove_cong:
  assumes agree: "\<forall>i<L. wtns i = wtns' i"
    and "unat (nVars pk) \<le> L" and "nPublic pk < nVars pk"
    and "\<forall>i<unat (nCoefs pk). unat (coef_s (coefs pk i)) < L"
  shows "prove pk wtns mem rng k = prove pk wtns' mem rng k"
proof -
  have full: "\<forall>i<unat (nVars pk). wtns (0 + i) = wtns' (0 + i)"
    using agree assms(2) by simp
  have a: "prove_pi_a pk wtns = prove_pi_a pk wtns'"
    using msm_sum_cong [OF full, of "pointsA pk"] by (simp add: prove_pi_a_sum)
  have b1: "prove_pib1 pk wtns = prove_pib1 pk wtns'"
    using msm_sum_cong [OF full, of "pointsB1 pk"] by (simp add: prove_pib1_sum)
  have b2: "prove_pi_b pk wtns = prove_pi_b pk wtns'"
    using msm_sum_cong [OF full, of "pointsB2 pk"] by (simp add: prove_pi_b_sum)
  have lt: "unat (nPublic pk) < unat (nVars pk)"
    using assms(3) by (simp add: word_less_nat_alt)
  then have cnt: "unat (nVars pk - nPublic pk - 1) = unat (nVars pk) - unat (nPublic pk) - 1"
    by (simp add: unat_sub word_le_nat_alt unat_gt_0 word_less_nat_alt)
  have "(unat (nPublic pk) + 1) mod 2 ^ 27 \<le> unat (nPublic pk) + 1" by simp
  then have tail: "\<forall>i<unat (nVars pk - nPublic pk - 1).
      wtns ((unat (nPublic pk) + 1) mod 2 ^ 27 + i) = wtns' ((unat (nPublic pk) + 1) mod 2 ^ 27 + i)"
    using agree assms(2) lt unfolding cnt by auto
  have c: "prove_pi_c pk wtns = prove_pi_c pk wtns'"
    using msm_sum_cong [OF tail, of "pointsC pk"] by (simp only: prove_pi_c_general)
  have "\<forall>cf \<in> set (map (coefs pk) [0..<unat (nCoefs pk)]).
      wtns (unat (coef_s cf)) = wtns' (unat (coef_s cf))"
    using agree assms(4) by auto
  then have "process_coefs wtns (map (coefs pk) [0..<unat (nCoefs pk)]) ab =
      process_coefs wtns' (map (coefs pk) [0..<unat (nCoefs pk)]) ab" for ab
    by (rule process_coefs_cong)
  then have q: "prove_quotient pk wtns abc = prove_quotient pk wtns' abc" for abc
    by (cases abc) (simp add: prove_quotient_def)
  show ?thesis
    by (simp add: prove_def prove_from_def a b1 b2 c q)
qed

text \<open>
  Claim C7, as amended. \<^verbatim>\<open>prove\<close> takes the witness as a pointer, never learns the
  length of the caller's vector and has no error to report it with. For a valid key
  (\<open>nPublic < nVars\<close>, every coefficient record with \<open>c < domainSize\<close> and \<open>s < nVars\<close>,
  sizes that keep the loop counters in range) and a random source that goes on yielding
  candidates below \<open>q\<close>, \<^verbatim>\<open>prove\<close> returns a proof for every witness vector \<open>ws\<close> of at
  least \<open>nVars\<close> elements, the same whatever memory follows the vector: a vector of
  \<open>nVars\<close> elements never fails, and a longer one is processed, not reported. Nothing is
  said of a shorter vector, past whose end the C++ reads.
\<close>

theorem prove_no_length_check:
  assumes "nPublic pk < nVars pk"
    and "\<forall>i<unat (nCoefs pk). unat (coef_c (coefs pk i)) < unat (domainSize pk) \<and>
           unat (coef_s (coefs pk i)) < unat (nVars pk)"
    and "int_index_ok pk"
    and "\<forall>k. \<exists>j\<ge>k. fr_val (mask_top (rng j)) < Fr_q"
    and "unat (nVars pk) \<le> length ws"
  shows "\<exists>p. \<forall>beyond. prove pk (wtns_ptr ws beyond) mem rng k = Some p"
proof -
  let ?w = "wtns_ptr ws (\<lambda>_. fr_zero)"
  have cr: "\<forall>i<unat (nCoefs pk). unat (coef_c (coefs pk i)) < unat (domainSize pk)"
    using assms(2) by simp
  have "\<exists>pih. prove_quotient pk ?w
      (replicate (unat (domainSize pk)) fr_zero, replicate (unat (domainSize pk)) fr_zero,
       map (mem 2) [0..<unat (domainSize pk)]) = Some pih"
    by (rule prove_quotient_returns [OF cr]) simp_all
  then obtain pih where
    q: "prove_quotient pk ?w (prove_init (domainSize pk) mem) = Some pih"
    unfolding prove_init_eq by blast
  obtain j where "k \<le> j" "fr_val (mask_top (rng j)) < Fr_q" using assms(4) by blast
  then obtain r k1 where r: "sample_scalar rng k = Some (r, k1)"
    using sample_scalar_terminates by blast
  obtain j' where "k1 \<le> j'" "fr_val (mask_top (rng j')) < Fr_q" using assms(4) by blast
  then obtain s k2 where s: "sample_scalar rng k1 = Some (s, k2)"
    using sample_scalar_terminates by blast
  obtain p where p: "prove pk ?w mem rng k = Some p"
    using assms(3) by (simp add: prove_def prove_from_eq [OF q r s])
  have "prove pk (wtns_ptr ws beyond) mem rng k = Some p" for beyond
  proof -
    have "\<forall>i<length ws. wtns_ptr ws beyond i = ?w i" by (simp add: wtns_ptr_def)
    moreover have "\<forall>i<unat (nCoefs pk). unat (coef_s (coefs pk i)) < length ws"
      using assms(2,5) by fastforce
    ultimately have "prove pk (wtns_ptr ws beyond) mem rng k = prove pk ?w mem rng k"
      using assms(1,5) by (intro prove_cong [where L = "length ws"])
    with p show ?thesis by simp
  qed
  then show ?thesis by blast
qed

subsection \<open>Arithmetic of Montgomery forms\<close>

lemma fr_val_mont: "fr_val (mont n) = (n * Fr_R) mod Fr_q"
  by (simp add: mont_def fr_val_of_nat_mod)

lemma mont_0: "fr_zero = mont 0"
  by (simp add: mont_def fr_zero_def)

lemma fr_add_mont: "fr_add (mont m) (mont n) = mont (m + n)"
proof -
  have "(m * Fr_R mod Fr_q + n * Fr_R mod Fr_q) mod Fr_q = ((m + n) * Fr_R) mod Fr_q"
    by (simp only: mod_add_eq distrib_right)
  then show ?thesis
    unfolding fr_add_def fr_val_mont by (simp only: mont_def)
qed

lemma mont_cancel: "(x * (Fr_R * Fr_Rinv)) mod Fr_q = x mod Fr_q"
proof -
  have "(x * (Fr_R * Fr_Rinv)) mod Fr_q = (x * ((Fr_R * Fr_Rinv) mod Fr_q)) mod Fr_q"
    by (simp only: mod_mult_right_eq)
  then show ?thesis by (simp add: Fr_R_inverse)
qed

lemma fr_mul_mont: "fr_mul (mont m) (mont n) = mont (m * n)"
proof -
  have "(m * Fr_R mod Fr_q * (n * Fr_R mod Fr_q) * Fr_Rinv) mod Fr_q =
      ((m * Fr_R mod Fr_q * (n * Fr_R mod Fr_q)) mod Fr_q * Fr_Rinv) mod Fr_q"
    by (rule mod_mult_left_eq [symmetric])
  also have "(m * Fr_R mod Fr_q * (n * Fr_R mod Fr_q)) mod Fr_q = (m * Fr_R * (n * Fr_R)) mod Fr_q"
    by (rule mod_mult_eq)
  also have "((m * Fr_R * (n * Fr_R)) mod Fr_q * Fr_Rinv) mod Fr_q =
      (m * Fr_R * (n * Fr_R) * Fr_Rinv) mod Fr_q"
    by (rule mod_mult_left_eq)
  also have "m * Fr_R * (n * Fr_R) * Fr_Rinv = m * n * Fr_R * (Fr_R * Fr_Rinv)"
    by (simp add: mult_ac)
  also have "(m * n * Fr_R * (Fr_R * Fr_Rinv)) mod Fr_q = (m * n * Fr_R) mod Fr_q"
    by (rule mont_cancel)
  finally show ?thesis
    unfolding fr_mul_def fr_val_mont by (simp only: mont_def)
qed

lemma fr_fromMontgomery_mont: "fr_fromMontgomery (mont n) = fr_of_nat (n mod Fr_q)"
proof -
  have "(n * Fr_R mod Fr_q * Fr_Rinv) mod Fr_q = (n * Fr_R * Fr_Rinv) mod Fr_q"
    by (rule mod_mult_left_eq)
  also have "n * Fr_R * Fr_Rinv = n * (Fr_R * Fr_Rinv)" by (simp add: mult_ac)
  also have "(n * (Fr_R * Fr_Rinv)) mod Fr_q = n mod Fr_q" by (rule mont_cancel)
  finally show ?thesis
    unfolding fr_fromMontgomery_def fr_val_mont by simp
qed

lemma fr_sub_mont:
  assumes "n \<le> m"
  shows "fr_sub (mont m) (mont n) = mont (m - n)"
proof -
  define X where "X = (m - n) * Fr_R"
  define Y where "Y = n * Fr_R"
  define d where "d = Y div Fr_q"
  define e where "e = Y mod Fr_q"
  have q0: "0 < Fr_q" by (simp add: Fr_q_def)
  have "m = (m - n) + n" using assms by simp
  then have "m * Fr_R = ((m - n) + n) * Fr_R" by simp
  then have xy: "m * Fr_R = X + Y" unfolding X_def Y_def by (simp only: distrib_right)
  have e: "e < Fr_q" using q0 by (simp add: e_def)
  have "Y = Fr_q * d + e" by (simp add: d_def e_def)
  then have "Y + (Fr_q - e) = Fr_q * d + Fr_q" using e by linarith
  then have "(Y + (Fr_q - e)) mod Fr_q = 0" by simp
  then have z: "(Y + (Fr_q - Y mod Fr_q)) mod Fr_q = 0" by (simp add: e_def)
  have "((X + Y) mod Fr_q + (Fr_q - Y mod Fr_q mod Fr_q)) mod Fr_q =
      ((X + Y) mod Fr_q + (Fr_q - Y mod Fr_q)) mod Fr_q"
    by simp
  also have "\<dots> = (X + Y + (Fr_q - Y mod Fr_q)) mod Fr_q"
    by (simp only: mod_add_left_eq)
  also have "X + Y + (Fr_q - Y mod Fr_q) = X + (Y + (Fr_q - Y mod Fr_q))" by simp
  also have "(X + (Y + (Fr_q - Y mod Fr_q))) mod Fr_q =
      (X + (Y + (Fr_q - Y mod Fr_q)) mod Fr_q) mod Fr_q"
    by (simp only: mod_add_right_eq)
  also have "\<dots> = X mod Fr_q" unfolding z by simp
  finally have "((X + Y) mod Fr_q + (Fr_q - Y mod Fr_q mod Fr_q)) mod Fr_q = X mod Fr_q" .
  moreover have "fr_sub (mont m) (mont n) =
      fr_of_nat ((m * Fr_R mod Fr_q + (Fr_q - n * Fr_R mod Fr_q mod Fr_q)) mod Fr_q)"
    by (simp only: fr_sub_def fr_val_mont)
  ultimately show ?thesis
    by (simp only: xy mont_def X_def [symmetric] Y_def [symmetric])
qed

subsection \<open>The example key evaluated\<close>

lemmas fr_eval = fr_add_def fr_mul_def fr_sub_def fr_fromMontgomery_def fr_zero_def
  fr_val_of_nat Fr_q_def Fr_Rinv_def coef_aux_def

lemma ex_wtns:
  "fr_val (wtns_ptr ws_example (\<lambda>_. fr_zero) 0) = 1"
  "fr_val (wtns_ptr ws_example (\<lambda>_. fr_zero) 1) = 2"
  by (simp_all add: wtns_ptr_def ws_example_def)

lemma ex_scatter:
  "process_coefs (wtns_ptr ws_example (\<lambda>_. fr_zero)) [cf_example1, cf_example2] ([fr_zero], [fr_zero]) =
     Some ([fr_of_nat 7858255966678688226666159588713031365503659123406113805067182978026710453225],
           [fr_of_nat 13659268287196743530360956988148991945160302862277625365613086545879291710061])"
  by (simp add: cf_example1_def cf_example2_def Let_def wtns_ptr_def ws_example_def fr_eval)


lemma ex_quotient:
  "prove_quotient pk_example (wtns_ptr ws_example (\<lambda>_. fr_zero)) (prove_init 1 mem_example) =
     Some 140817707150479813046305575771984212180372014643923909336024172146810368182116"
proof -
  have c: "map (coefs pk_example) [0..<unat (nCoefs pk_example)] = [cf_example1, cf_example2]"
    by (simp add: pk_example_def upt_rec)
  have n: "unat (domainSize pk_example) = 1" by (simp add: pk_example_def)
  have i: "prove_init 1 mem_example = ([fr_zero], [fr_zero], [Limbs 7 0 0 0])"
    by (simp add: prove_init_eq mem_example_def)
  have cc: "calc_c 1 ([x], [y], [z]) = ([x], [y], [fr_mul x y])" for x y z
    by (simp add: calc_c_eq)
  have h: "prove_h_evals pk_example ([x], [y], [z]) =
      [fr_fromMontgomery (fr_sub (fr_mul (fr_mul x (Limbs 1 0 0 0)) (fr_mul y (Limbs 1 0 0 0)))
         (fr_mul z (Limbs 1 0 0 0)))]" for x y z
    by (simp add: prove_h_evals_def calc_abc_def coset_chain_def pk_example_def
        fft_example_def Let_def)
  have p: "prove_pih pk_example [x] = int (fr_val x) * 29" for x
    by (simp add: prove_pih_sum n g_scale_int) (simp add: pk_example_def)
  show ?thesis
    unfolding prove_quotient_def i c prod.case ex_scatter option.case n cc Let_def h p
    by (simp add: fr_eval)
qed

subsection \<open>The theorems at the example inputs\<close>

lemma ex_sample_r: "sample_scalar rng_example 0 = Some (Limbs 5 0 0 0, 2)"
proof -
  have 0: "Fr_q \<le> fr_val (mask_top (rng_example 0))"
    by (simp add: rng_example_def mask_top_def Fr_q_def)
  have 1: "\<not> Fr_q \<le> fr_val (mask_top (rng_example (Suc 0)))" "mask_top (rng_example (Suc 0)) = Limbs 5 0 0 0"
    by (simp_all add: rng_example_def mask_top_def Fr_q_def)
  have "sample_scalar rng_example 0 = sample_scalar rng_example (Suc 0)"
    using 0 by (subst sample_scalar_step) simp
  also have "\<dots> = Some (Limbs 5 0 0 0, 2)"
    using 1 by (subst sample_scalar_step) simp
  finally show ?thesis .
qed

lemma ex_sample_s: "sample_scalar rng_example 2 = Some (Limbs 5 0 0 0, 3)"
proof -
  have 1: "\<not> Fr_q \<le> fr_val (mask_top (rng_example 2))" "mask_top (rng_example 2) = Limbs 5 0 0 0"
    by (simp_all add: rng_example_def mask_top_def Fr_q_def)
  then show ?thesis by (subst sample_scalar_step) simp
qed

lemma ex_msms:
  "prove_pi_a pk_example (wtns_ptr ws_example (\<lambda>_. fr_zero)) = 39"
  "prove_pib1 pk_example (wtns_ptr ws_example (\<lambda>_. fr_zero)) = 51"
  "prove_pi_b pk_example (wtns_ptr ws_example (\<lambda>_. fr_zero)) = 57"
  "prove_pi_c pk_example (wtns_ptr ws_example (\<lambda>_. fr_zero)) = 46"
     apply (simp_all add: prove_pi_a_sum prove_pib1_sum prove_pi_b_sum prove_pi_c_general
      g_scale_int)
     apply (simp_all add: pk_example_def wtns_ptr_def ws_example_def upt_rec)
  done

lemma ex_ok: "int_index_ok pk_example"
  by (simp add: int_index_ok_def pk_example_def)

lemma ex_key: "domainSize pk_example = 1" "vk_alpha1 pk_example = 2" "vk_beta1 pk_example = 3"
  "vk_beta2 pk_example = 5" "vk_delta1 pk_example = 7" "vk_delta2 pk_example = 11"
  by (simp_all add: pk_example_def)

theorem prove_assembly_witness:
  "prove_quotient pk_example (wtns_ptr ws_example (\<lambda>_. fr_zero))
      (prove_init (domainSize pk_example) mem_example) =
     Some 140817707150479813046305575771984212180372014643923909336024172146810368182116 \<and>
   sample_scalar rng_example 0 = Some (Limbs 5 0 0 0, 2) \<and>
   sample_scalar rng_example 2 = Some (Limbs 5 0 0 0, 3) \<and>
   int_index_ok pk_example \<and>
   prove pk_example (wtns_ptr ws_example (\<lambda>_. fr_zero)) mem_example rng_example 0 =
     Some \<lparr>proof_A = 76, proof_B = 117,
           proof_C = 140817707150479813046305575771984212180372014643923909336024172146810368182812\<rparr>"
proof -
  have q: "prove_quotient pk_example (wtns_ptr ws_example (\<lambda>_. fr_zero))
      (prove_init (domainSize pk_example) mem_example) =
     Some 140817707150479813046305575771984212180372014643923909336024172146810368182116"
    using ex_quotient by (simp add: ex_key)
  show ?thesis
    using prove_assembly [OF q ex_sample_r ex_sample_s ex_ok] q ex_sample_r ex_sample_s ex_ok
    by (simp add: ex_msms ex_key g_scale_int Fr_q_def)
qed


theorem prove_no_length_check_witness:
  "nPublic pk_example < nVars pk_example \<and>
   unat (nCoefs pk_example) = 2 \<and>
   unat (coef_c (coefs pk_example 0)) < unat (domainSize pk_example) \<and>
   unat (coef_s (coefs pk_example 0)) < unat (nVars pk_example) \<and>
   unat (coef_c (coefs pk_example 1)) < unat (domainSize pk_example) \<and>
   unat (coef_s (coefs pk_example 1)) < unat (nVars pk_example) \<and>
   int_index_ok pk_example \<and>
   (\<forall>k. \<exists>j\<ge>k. fr_val (mask_top (rng_example j)) < Fr_q) \<and>
   unat (nVars pk_example) \<le> length ws_example \<and>
   (\<exists>p. \<forall>beyond. prove pk_example (wtns_ptr ws_example beyond) mem_example rng_example 0 = Some p)"
proof -
  have v: "nPublic pk_example < nVars pk_example" "unat (nCoefs pk_example) = 2"
    "unat (nVars pk_example) \<le> length ws_example"
    by (simp_all add: pk_example_def ws_example_def)
  have c: "unat (coef_c (coefs pk_example 0)) < unat (domainSize pk_example)"
    "unat (coef_s (coefs pk_example 0)) < unat (nVars pk_example)"
    "unat (coef_c (coefs pk_example 1)) < unat (domainSize pk_example)"
    "unat (coef_s (coefs pk_example 1)) < unat (nVars pk_example)"
    by (simp_all add: pk_example_def cf_example1_def cf_example2_def)
  have h1: "\<forall>i<unat (nCoefs pk_example).
      unat (coef_c (coefs pk_example i)) < unat (domainSize pk_example) \<and>
      unat (coef_s (coefs pk_example i)) < unat (nVars pk_example)"
    using c v(2) by (simp add: less_Suc_eq numeral_2_eq_2)
  have h2: "\<forall>k. \<exists>j\<ge>k. fr_val (mask_top (rng_example j)) < Fr_q"
  proof
    fix k
    have "fr_val (mask_top (rng_example (Suc k))) < Fr_q"
      by (simp add: rng_example_def mask_top_def Fr_q_def)
    then show "\<exists>j\<ge>k. fr_val (mask_top (rng_example j)) < Fr_q"
      by (intro exI [of _ "Suc k"]) simp
  qed
  from prove_no_length_check [OF v(1) h1 ex_ok h2 v(3), of mem_example 0] v c ex_ok h2
  show ?thesis by blast
qed

text \<open>
  Claim C7 as stated fails: the example key has two variables, the witness vector three
  elements, and \<^verbatim>\<open>prove\<close> returns a proof.
\<close>

theorem prove_length_check_counterexample:
  "length ws_example \<noteq> unat (nVars pk_example) \<and>
   prove pk_example (wtns_ptr ws_example (\<lambda>_. fr_zero)) mem_example rng_example 0 =
     Some \<lparr>proof_A = 76, proof_B = 117,
           proof_C = 140817707150479813046305575771984212180372014643923909336024172146810368182812\<rparr>"
proof -
  have q: "prove_quotient pk_example (wtns_ptr ws_example (\<lambda>_. fr_zero))
      (prove_init (domainSize pk_example) mem_example) =
     Some 140817707150479813046305575771984212180372014643923909336024172146810368182116"
    using ex_quotient by (simp add: ex_key)
  have "length ws_example \<noteq> unat (nVars pk_example)"
    by (simp add: ws_example_def pk_example_def)
  moreover have "prove pk_example (wtns_ptr ws_example (\<lambda>_. fr_zero)) mem_example rng_example 0 =
      Some (prove_assemble pk_example (prove_pi_a pk_example (wtns_ptr ws_example (\<lambda>_. fr_zero)))
        (prove_pib1 pk_example (wtns_ptr ws_example (\<lambda>_. fr_zero)))
        (prove_pi_b pk_example (wtns_ptr ws_example (\<lambda>_. fr_zero)))
        (prove_pi_c pk_example (wtns_ptr ws_example (\<lambda>_. fr_zero)))
        140817707150479813046305575771984212180372014643923909336024172146810368182116
        (Limbs 5 0 0 0) (Limbs 5 0 0 0))"
    by (simp only: prove_def prove_from_eq [OF q ex_sample_r ex_sample_s] ex_ok if_True)
  ultimately show ?thesis
    by (simp add: prove_assemble_eq ex_msms ex_key g_scale_int Fr_q_def)
qed

theorem scatter_order_independent_witness:
  "mset [cf_example3, cf_example2, cf_example1] = mset [cf_example1, cf_example2, cf_example3] \<and>
   unat (coef_c cf_example1) < 2 \<and> unat (coef_c cf_example2) < 2 \<and>
   unat (coef_c cf_example3) < 2 \<and>
   process_coefs wtns_example [cf_example3, cf_example2, cf_example1]
       ([fr_zero, fr_zero], [fr_zero, fr_zero]) =
     Some ([fr_of_nat 19460280607714798834055754387584952524816946601149136926158990113731872966897,
            fr_zero],
           [fr_of_nat 13659268287196743530360956988148991945160302862277625365613086545879291710061,
            fr_zero])"
proof -
  have m: "mset [cf_example3, cf_example2, cf_example1] =
      mset [cf_example1, cf_example2, cf_example3]"
    by (simp add: add_mset_commute)
  have l: "length [fr_zero, fr_zero] = 2" by simp
  have c: "unat (coef_c cf_example1) < 2" "unat (coef_c cf_example2) < 2"
    "unat (coef_c cf_example3) < 2"
    by (simp_all add: cf_example1_def cf_example2_def cf_example3_def)
  then have r: "\<forall>cf \<in> set [cf_example1, cf_example2, cf_example3]. unat (coef_c cf) < 2"
    by simp
  have t: "targets True 0 cf_example1" "\<not> targets True 0 cf_example2" "targets True 0 cf_example3"
    "\<not> targets True (Suc 0) cf_example1" "\<not> targets True (Suc 0) cf_example2" "\<not> targets True (Suc 0) cf_example3"
    "\<not> targets False 0 cf_example1" "targets False 0 cf_example2" "\<not> targets False 0 cf_example3"
    "\<not> targets False (Suc 0) cf_example1" "\<not> targets False (Suc 0) cf_example2" "\<not> targets False (Suc 0) cf_example3"
    by (simp_all add: targets_def cf_example1_def cf_example2_def cf_example3_def)
  have s: "serial_sum wtns_example [cf_example1, cf_example2, cf_example3] True 0 fr_zero =
        fr_of_nat 19460280607714798834055754387584952524816946601149136926158990113731872966897"
      "serial_sum wtns_example [cf_example1, cf_example2, cf_example3] True (Suc 0) fr_zero = fr_zero"
      "serial_sum wtns_example [cf_example1, cf_example2, cf_example3] False 0 fr_zero =
        fr_of_nat 13659268287196743530360956988148991945160302862277625365613086545879291710061"
      "serial_sum wtns_example [cf_example1, cf_example2, cf_example3] False (Suc 0) fr_zero = fr_zero"
    unfolding serial_sum_def
    by (simp_all add: t)
       (simp_all add: cf_example1_def cf_example2_def cf_example3_def wtns_example_def fr_eval)
  from scatter_order_independent [OF m l l, of wtns_example] r
  have "process_coefs wtns_example [cf_example3, cf_example2, cf_example1]
       ([fr_zero, fr_zero], [fr_zero, fr_zero]) =
     Some (map (\<lambda>j. serial_sum wtns_example [cf_example1, cf_example2, cf_example3] True j
                  ([fr_zero, fr_zero] ! j)) [0..<2],
           map (\<lambda>j. serial_sum wtns_example [cf_example1, cf_example2, cf_example3] False j
                  ([fr_zero, fr_zero] ! j)) [0..<2])"
    by blast
  also have "[0..<2] = [0, Suc 0]" by (simp add: upt_rec)
  finally show ?thesis using m c by (simp add: s)
qed


lemma ex2_key: "unat (domainSize pk_example2) = 2" "unat (nCoefs pk_example2) = 5"
  "fft_engine pk_example2 = fft_example2" "coefs pk_example2 = coefs_example2"
  "pointsH pk_example2 = (\<lambda>i. 29 + int i)"
  by (simp_all add: pk_example2_def)

lemma ex2_scatter:
  "process_coefs wtns_example2 (map coefs_example2 [0..<5])
       ([fr_zero, fr_zero], [fr_zero, fr_zero]) =
     Some ([mont 7, mont 10], [mont 28, mont 4])"
proof -
  have c: "map coefs_example2 [0..<5] =
      [\<lparr>coef_m = 0, coef_c = 0, coef_s = 0, coef_coef = mont 3\<rparr>,
       \<lparr>coef_m = 0, coef_c = 1, coef_s = 1, coef_coef = mont 5\<rparr>,
       \<lparr>coef_m = 1, coef_c = 0, coef_s = 2, coef_coef = mont 7\<rparr>,
       \<lparr>coef_m = 1, coef_c = 1, coef_s = 1, coef_coef = mont 2\<rparr>,
       \<lparr>coef_m = 0, coef_c = 0, coef_s = 2, coef_coef = mont 1\<rparr>]"
    by (simp add: upt_rec coefs_example2_def)
  show ?thesis
    unfolding c mont_0
    by (simp add: Let_def wtns_example2_def fr_mul_mont fr_add_mont)
qed

lemma ex2_coset:
  "spec_coset fft_example2 2 [mont p, mont q] = [mont (q * 21 + (p + q) * 22), mont (q * 21)]"
  by (simp add: spec_coset_def fft_example2_def upt_rec fr_mul_mont fr_add_mont)

lemma ex2_h_evals:
  "spec_h_evals fft_example2 2 ([mont 7, mont 10], [mont 28, mont 4], [mont 196, mont 40]) =
     [fr_of_nat 454160, fr_of_nat 16800]"
  by (simp add: spec_h_evals_def ex2_coset upt_rec fr_mul_mont fr_sub_mont
      fr_fromMontgomery_mont Fr_q_def)

theorem coset_pipeline_witness:
  "(\<forall>x. length (ifft (fft_engine pk_example2) x (unat (domainSize pk_example2))) = length x) \<and>
   (\<forall>x. length (fft (fft_engine pk_example2) x (unat (domainSize pk_example2))) = length x) \<and>
   process_coefs wtns_example2 (map (coefs pk_example2) [0..<unat (nCoefs pk_example2)])
       (replicate (unat (domainSize pk_example2)) fr_zero,
        replicate (unat (domainSize pk_example2)) fr_zero) =
     Some ([mont 7, mont 10], [mont 28, mont 4]) \<and>
   int_index_ok pk_example2 \<and>
   sample_scalar rng_example 0 = Some (Limbs 5 0 0 0, 2) \<and>
   sample_scalar rng_example 2 = Some (Limbs 5 0 0 0, 3) \<and>
   prove_h_evals pk_example2 ([mont 7, mont 10], [mont 28, mont 4], [mont 196, mont 40]) =
     [fr_of_nat 454160, fr_of_nat 16800] \<and>
   prove_quotient pk_example2 wtns_example2 (prove_init (domainSize pk_example2) mem_example) =
     Some 13674640 \<and>
   prove pk_example2 wtns_example2 mem_example rng_example 0 =
     Some (prove_assemble pk_example2 (prove_pi_a pk_example2 wtns_example2)
        (prove_pib1 pk_example2 wtns_example2) (prove_pi_b pk_example2 wtns_example2)
        (prove_pi_c pk_example2 wtns_example2) 13674640 (Limbs 5 0 0 0) (Limbs 5 0 0 0))"
proof -
  have i: "\<forall>x. length (ifft (fft_engine pk_example2) x (unat (domainSize pk_example2))) = length x"
    and f: "\<forall>x. length (fft (fft_engine pk_example2) x (unat (domainSize pk_example2))) = length x"
    by (simp_all add: pk_example2_def fft_example2_def)
  have r: "replicate (unat (domainSize pk_example2)) fr_zero = [fr_zero, fr_zero]"
    by (simp add: ex2_key numeral_2_eq_2)
  have p: "process_coefs wtns_example2 (map (coefs pk_example2) [0..<unat (nCoefs pk_example2)])
       (replicate (unat (domainSize pk_example2)) fr_zero,
        replicate (unat (domainSize pk_example2)) fr_zero) =
     Some ([mont 7, mont 10], [mont 28, mont 4])"
    unfolding r using ex2_scatter by (simp add: ex2_key)
  have c: "[mont 196, mont 40] =
      map (\<lambda>i. fr_mul ([mont 7, mont 10] ! i) ([mont 28, mont 4] ! i))
        [0..<unat (domainSize pk_example2)]"
    by (simp add: ex2_key upt_rec fr_mul_mont)
  have ok: "int_index_ok pk_example2"
    by (simp add: int_index_ok_def pk_example2_def)
  have m: "spec_msm (pointsH pk_example2) [fr_of_nat 454160, fr_of_nat 16800] 2 = 13674640"
    by (simp add: spec_msm_def ex2_key upt_rec g_scale_int fr_val_of_nat)
  note t = coset_pipeline [OF i f p c ok ex_sample_r ex_sample_s, of mem_example,
      unfolded ex2_key(1,3)]
  have "prove_h_evals pk_example2 ([mont 7, mont 10], [mont 28, mont 4], [mont 196, mont 40]) =
      spec_h_evals fft_example2 2 ([mont 7, mont 10], [mont 28, mont 4], [mont 196, mont 40])"
    using t by (simp add: spec_h_evals_def)
  moreover
  have "prove_quotient pk_example2 wtns_example2 (prove_init (domainSize pk_example2) mem_example) =
      Some (spec_msm (pointsH pk_example2)
        (spec_h_evals fft_example2 2 ([mont 7, mont 10], [mont 28, mont 4], [mont 196, mont 40])) 2)"
    using t by blast
  moreover
  have "prove pk_example2 wtns_example2 mem_example rng_example 0 =
      Some (prove_assemble pk_example2 (prove_pi_a pk_example2 wtns_example2)
        (prove_pib1 pk_example2 wtns_example2) (prove_pi_b pk_example2 wtns_example2)
        (prove_pi_c pk_example2 wtns_example2)
        (spec_msm (pointsH pk_example2)
          (spec_h_evals fft_example2 2 ([mont 7, mont 10], [mont 28, mont 4], [mont 196, mont 40])) 2)
        (Limbs 5 0 0 0) (Limbs 5 0 0 0))"
    using t by blast
  ultimately show ?thesis
    using i f p ok ex_sample_r ex_sample_s by (simp only: ex2_h_evals m simp_thms)
qed

theorem rs_scalar_natural_form_witness:
  "read_le (fr_bytes (\<lambda>_. fr_toMontgomery (fr_mul (Limbs 5 0 0 0) (Limbs 6 0 0 0)))) 0
      sizeof_FrElement = 30 \<and>
   proof_C (prove_assemble pk_example 39 51 57 46 0 (Limbs 5 0 0 0) (Limbs 6 0 0 0)) =
     46 + 0 + 6 * (39 + 2 + 5 * 7) + 5 * (51 + 3 + 6 * 7) - 30 * 7"
  using rs_scalar_natural_form [of pk_example 39 51 57 46 0 "Limbs 5 0 0 0" "Limbs 6 0 0 0"]
  by (simp add: ex_key mulByScalar_element g_scale_int Fr_q_def)

subsection \<open>The JSON projections\<close>

lemma string_of_nat_no_space: "CHR '' '' \<notin> set (string_of_nat n)"
proof (induction n rule: string_of_nat.induct)
  case (1 n)
  have d: "digit_char k \<noteq> CHR '' ''" if "k < 10" for k :: nat
  proof -
    have "k \<in> {0,1,2,3,4,5,6,7,8,9}" using that by auto
    then show ?thesis by (auto simp: digit_char_def)
  qed
  have d': "CHR '' '' \<noteq> digit_char k" if "k < 10" for k :: nat
    using d [OF that] by simp
  show ?case
  proof (cases "n < 10")
    case True
    then show ?thesis by (subst string_of_nat.simps) (simp add: d')
  next
    case False
    have "n mod 10 < 10" by simp
    from d' [OF this] False 1 show ?thesis
      by (subst string_of_nat.simps) simp
  qed
qed

lemma filter_no_space: "CHR '' '' \<notin> set t \<Longrightarrow> filter (\<lambda>ch. ch \<noteq> CHR '' '') t = t"
  by (induction t) auto



lemma filter_toString:
  "filter (\<lambda>ch. ch \<noteq> CHR '' '') (f1_toString natural x) = f1_toString natural x"
  by (simp add: f1_toString_def filter_no_space string_of_nat_no_space)

lemma segs_a:
  \<open>filter (\<lambda>ch. ch \<noteq> CHR '' '') ''{ "pi_a":["'' = ''{"pi_a":["''\<close>
  \<open>filter (\<lambda>ch. ch \<noteq> CHR '' '') ''","'' = ''","''\<close>
  \<open>filter (\<lambda>ch. ch \<noteq> CHR '' '') ''","1"], '' = ''","1"],''\<close>
  by simp_all

lemma segs_b:
  \<open>filter (\<lambda>ch. ch \<noteq> CHR '' '') '' "pi_b": [["'' = ''"pi_b":[["''\<close>
  \<open>filter (\<lambda>ch. ch \<noteq> CHR '' '') ''"],["'' = ''"],["''\<close>
  \<open>filter (\<lambda>ch. ch \<noteq> CHR '' '') ''"], ["1","0"]], '' = ''"],["1","0"]],''\<close>
  by simp_all

lemma segs_c:
  \<open>filter (\<lambda>ch. ch \<noteq> CHR '' '') '' "pi_c": ["'' = ''"pi_c":["''\<close>
  \<open>filter (\<lambda>ch. ch \<noteq> CHR '' '') '' "protocol":"groth16" }'' = ''"protocol":"groth16"}''\<close>
  by simp_all

lemma toJsonStr_filter:
  \<open>filter (\<lambda>ch. ch \<noteq> CHR '' '') (toJsonStr natural p) =
     ''{"pi_a":["'' @ f1_toString natural (g1_x (proof_A p)) @ ''","'' @
       f1_toString natural (g1_y (proof_A p)) @ ''","1"],'' @
     ''"pi_b":[["'' @ f1_toString natural (f2_a (g2_x (proof_B p))) @ ''","'' @
       f1_toString natural (f2_b (g2_x (proof_B p))) @ ''"],["'' @
       f1_toString natural (f2_a (g2_y (proof_B p))) @ ''","'' @
       f1_toString natural (f2_b (g2_y (proof_B p))) @ ''"],["1","0"]],'' @
     ''"pi_c":["'' @ f1_toString natural (g1_x (proof_C p)) @ ''","'' @
       f1_toString natural (g1_y (proof_C p)) @ ''","1"],'' @
     ''"protocol":"groth16"}''\<close>
  by (simp only: toJsonStr_def filter_append segs_a segs_b segs_c filter_toString)


lemma digit_val_char: "d < 10 \<Longrightarrow> digit_val (digit_char d) = d"
proof -
  assume "d < 10"
  then have "d \<in> {0,1,2,3,4,5,6,7,8,9}" by auto
  then show ?thesis by (auto simp: digit_char_def digit_val_def)
qed

lemma decimal_value_snoc: "decimal_value (t @ [ch]) = 10 * decimal_value t + digit_val ch"
  by (simp add: decimal_value_def)

lemma decimal_value_string_of_nat: "decimal_value (string_of_nat n) = n"
proof (induction n rule: string_of_nat.induct)
  case (1 n)
  show ?case
  proof (cases "n < 10")
    case True
    then show ?thesis
      by (subst string_of_nat.simps) (simp add: decimal_value_def digit_val_char)
  next
    case False
    have "decimal_value (string_of_nat n) =
        10 * decimal_value (string_of_nat (n div 10)) + digit_val (digit_char (n mod 10))"
      using False by (subst string_of_nat.simps) (simp add: decimal_value_snoc)
    also have "\<dots> = 10 * (n div 10) + n mod 10"
      using 1 False by (simp add: digit_val_char)
    finally show ?thesis by simp
  qed
qed

lemma toJson_value: "toJson natural p = Some (spec_proof_json natural p)"
  by (simp add: toJson_def spec_proof_json_def f1_toString_def json_at_push_back_def)

lemma json_text_spec:
  \<open>json_text (spec_proof_json natural p) =
     ''{"pi_a":["'' @ f1_toString natural (g1_x (proof_A p)) @ ''","'' @
       f1_toString natural (g1_y (proof_A p)) @ ''","1"],'' @
     ''"pi_b":[["'' @ f1_toString natural (f2_a (g2_x (proof_B p))) @ ''","'' @
       f1_toString natural (f2_b (g2_x (proof_B p))) @ ''"],["'' @
       f1_toString natural (f2_a (g2_y (proof_B p))) @ ''","'' @
       f1_toString natural (f2_b (g2_y (proof_B p))) @ ''"],["1","0"]],'' @
     ''"pi_c":["'' @ f1_toString natural (g1_x (proof_C p)) @ ''","'' @
       f1_toString natural (g1_y (proof_C p)) @ ''","1"],'' @
     ''"protocol":"groth16"}''\<close>
  by (simp add: spec_proof_json_def f1_toString_def)

text \<open>
  Claim C9. \<^const>\<open>toJson\<close> builds the object with the fields \<open>pi_a\<close>, \<open>pi_b\<close>,
  \<open>pi_c\<close>, \<open>protocol\<close> in this order, \<open>pi_a\<close> and \<open>pi_c\<close> being \<open>[X, Y, "1"]\<close>,
  \<open>pi_b\<close> being \<open>[[X.a, X.b], [Y.a, Y.b], ["1", "0"]]\<close> and \<open>protocol\<close> the string
  \<open>groth16\<close>; the text of \<^const>\<open>toJsonStr\<close> is, up to its blanks, the text of that
  same object; and every coordinate string is the decimal numeral of the coordinate's
  natural-form integer.
\<close>

theorem proof_json_projection:
  "toJson natural p = Some (spec_proof_json natural p) \<and>
   filter (\<lambda>ch. ch \<noteq> CHR '' '') (toJsonStr natural p) = json_text (spec_proof_json natural p) \<and>
   decimal_value (f1_toString natural x) = natural x"
  by (simp only: toJson_value toJsonStr_filter json_text_spec f1_toString_def
      decimal_value_string_of_nat simp_thms)

end
